theory Spec2Isabelle
  imports Main "HOL-Library.Word"
begin

section \<open>The copy command of drrepltool (copy-main.go)\<close>

text \<open>
  The development embeds \<^verbatim>\<open>copyAction\<close> and the two functions it calls from the same
  file, \<^verbatim>\<open>checkCopyArgsAndInit\<close> and \<^verbatim>\<open>initMinioClient\<close>. Everything the run
  depends on from outside (the command line, the URL parser, the MinIO client library,
  the manifest file, the object stores, the clock) is a field of the record \<open>world\<close>.
  The replication engine behind \<^verbatim>\<open>copyState\<close> is declared in another file of the
  repository; it is modelled in its own section from the specification. The transport
  options that \<^verbatim>\<open>initMinioClient\<close> passes to the client library (time-outs, TLS
  settings) have no part in what is proved here and are left out.
\<close>

subsection \<open>Go library functions\<close>

text \<open>
  Strings are byte lists, and a rune or a byte is an \<open>int\<close>. \<^verbatim>\<open>strings.TrimSpace\<close>
  removes the leading and trailing white space of a string as Unicode defines it. It runs
  over the ASCII bytes of Go's \<^verbatim>\<open>asciiSpace\<close> table first and, at the first byte that is
  not ASCII, hands the rest to \<^verbatim>\<open>TrimFunc\<close> or \<^verbatim>\<open>TrimRightFunc\<close> with
  \<^verbatim>\<open>unicode.IsSpace\<close>, which decode UTF-8 (an invalid byte decodes to \<^verbatim>\<open>RuneError\<close>
  with width 1 and is not white space).
\<close>

unbundle bit_operations_syntax

definition byte :: "char \<Rightarrow> int" where
  "byte c = of_char c"

definition RuneError :: int where "RuneError = 0xFFFD"
definition RuneSelf :: int where "RuneSelf = 0x80"

definition asciiSpace :: "char \<Rightarrow> bool" where
  "asciiSpace c = (c \<in> {CHR 0x09, CHR 0x0A, CHR 0x0B, CHR 0x0C, CHR 0x0D, CHR '' ''})"

definition IsSpace :: "int \<Rightarrow> bool" where
  "IsSpace r =
     (if r \<le> 0xFF then r \<in> {0x09, 0x0A, 0x0B, 0x0C, 0x0D, 0x20, 0x85, 0xA0}
      else r = 0x1680 \<or> (0x2000 \<le> r \<and> r \<le> 0x200A) \<or> r = 0x2028 \<or> r = 0x2029 \<or>
           r = 0x202F \<or> r = 0x205F \<or> r = 0x3000)"

definition first :: "int \<Rightarrow> int" where
  "first b =
     (if b < 0x80 then 0xF0
      else if b < 0xC2 then 0xF1
      else if b < 0xE0 then 0x02
      else if b = 0xE0 then 0x13
      else if b < 0xED then 0x03
      else if b = 0xED then 0x23
      else if b < 0xF0 then 0x03
      else if b = 0xF0 then 0x34
      else if b < 0xF4 then 0x04
      else if b = 0xF4 then 0x44
      else 0xF1)"

definition acceptRanges :: "int \<Rightarrow> int \<times> int" where
  "acceptRanges i =
     (if i = 1 then (0xA0, 0xBF)
      else if i = 2 then (0x80, 0x9F)
      else if i = 3 then (0x90, 0xBF)
      else if i = 4 then (0x80, 0x8F)
      else (0x80, 0xBF))"

text \<open>
  \<^verbatim>\<open>utf8.DecodeRuneInString\<close>: the first rune of the string and its width in bytes. The
  table \<open>first\<close> gives, for the leading byte, the width in its low three bits and the
  index of the range accepted for the second byte in its high four.
\<close>

definition DecodeRuneInString :: "string \<Rightarrow> int \<times> nat" where
  "DecodeRuneInString s =
     (let n = length s in
      if n < 1 then (RuneError, 0)
      else
        let s0 = byte (s ! 0); x = first s0 in
        if x \<ge> 0xF0 then (if x = 0xF0 then s0 else RuneError, 1)
        else
          let sz = nat (x AND 7); accept = acceptRanges (drop_bit 4 x) in
          if n < sz then (RuneError, 1)
          else
            let s1 = byte (s ! 1) in
            if s1 < fst accept \<or> snd accept < s1 then (RuneError, 1)
            else if sz \<le> 2 then (push_bit 6 (s0 AND 0x1F) OR (s1 AND 0x3F), 2)
            else
              let s2 = byte (s ! 2) in
              if s2 < 0x80 \<or> 0xBF < s2 then (RuneError, 1)
              else if sz \<le> 3
              then (push_bit 12 (s0 AND 0x0F) OR push_bit 6 (s1 AND 0x3F) OR (s2 AND 0x3F), 3)
              else
                let s3 = byte (s ! 3) in
                if s3 < 0x80 \<or> 0xBF < s3 then (RuneError, 1)
                else (push_bit 18 (s0 AND 0x07) OR push_bit 12 (s1 AND 0x3F) OR
                      push_bit 6 (s2 AND 0x3F) OR (s3 AND 0x3F), 4))"

text \<open>A rune of a string that is not empty is at least one byte wide: the loops below end.\<close>

lemma DecodeRuneInString_pos: "s \<noteq> [] \<Longrightarrow> 1 \<le> snd (DecodeRuneInString s)"
  by (simp add: DecodeRuneInString_def Let_def)

text \<open>
  \<^verbatim>\<open>utf8.DecodeLastRuneInString\<close>: the last rune of the string and its width. \<open>backUp\<close>
  is its loop, which steps back from the byte before the last to the start of a rune,
  not further than \<open>lim\<close>.
\<close>

definition RuneStart :: "int \<Rightarrow> bool" where
  "RuneStart b = (b AND 0xC0 \<noteq> 0x80)"

function backUp :: "string \<Rightarrow> int \<Rightarrow> int \<Rightarrow> int" where
  "backUp s lim start =
     (if start \<ge> lim
      then (if RuneStart (byte (s ! nat start)) then start else backUp s lim (start - 1))
      else start)"
  by pat_completeness auto
termination
  by (relation "measure (\<lambda>(s, lim, start). nat (start - lim + 1))") auto

declare backUp.simps [simp del]

lemma backUp_le: "backUp s lim start \<le> start"
proof (induction s lim start rule: backUp.induct)
  case (1 s lim start)
  then show ?case by (subst backUp.simps) auto
qed

definition DecodeLastRuneInString :: "string \<Rightarrow> int \<times> nat" where
  "DecodeLastRuneInString s =
     (let n = int (length s) in
      if n = 0 then (RuneError, 0)
      else
        let r = byte (s ! nat (n - 1)) in
        if r < RuneSelf then (r, 1)
        else
          let start = max 0 (backUp s (max 0 (n - 4)) (n - 2))
          in case DecodeRuneInString (drop (nat start) s) of
               (r, wid) \<Rightarrow> if start + int wid \<noteq> n then (RuneError, 1) else (r, wid))"

lemma DecodeLastRuneInString_pos:
  assumes "s \<noteq> []"
  shows "1 \<le> snd (DecodeLastRuneInString s)"
proof -
  define start where "start = max 0 (backUp s (max 0 (int (length s) - 4)) (int (length s) - 2))"
  obtain r wid where d: "DecodeRuneInString (drop (nat start) s) = (r, wid)"
    by (cases "DecodeRuneInString (drop (nat start) s)")
  have "backUp s (max 0 (int (length s) - 4)) (int (length s) - 2) \<le> int (length s) - 2"
    by (rule backUp_le)
  with assms have "nat start < length s" by (cases s) (auto simp: start_def)
  then have "drop (nat start) s \<noteq> []" by simp
  from DecodeRuneInString_pos [OF this] d have "1 \<le> wid" by simp
  then show ?thesis
    using d assms by (simp add: DecodeLastRuneInString_def Let_def start_def [symmetric])
qed

lemma DecodeRuneInString_wid:
  "(r, wid) = DecodeRuneInString (drop i s) \<Longrightarrow> i < length s \<Longrightarrow> 0 < wid"
  using DecodeRuneInString_pos [of "drop i s"] by (cases "DecodeRuneInString (drop i s)") auto

lemma DecodeLastRuneInString_wid:
  "(r, wid) = DecodeLastRuneInString (take i s) \<Longrightarrow> 0 < i \<Longrightarrow> i \<le> length s \<Longrightarrow> 0 < wid"
proof -
  assume a: "(r, wid) = DecodeLastRuneInString (take i s)" and "0 < i" and "i \<le> length s"
  then have "take i s \<noteq> []" by auto
  from DecodeLastRuneInString_pos [OF this] a show "0 < wid" by (metis One_nat_def Suc_le_eq snd_conv)
qed

text \<open>
  \<^verbatim>\<open>indexFunc\<close> and \<^verbatim>\<open>lastIndexFunc\<close>: the index of the first and of the last rune on which
  \<open>f\<close> gives \<open>truth\<close>; \<open>None\<close> is Go's -1. The loop variable \<open>i\<close> is an argument.
\<close>

function indexFunc :: "string \<Rightarrow> (int \<Rightarrow> bool) \<Rightarrow> bool \<Rightarrow> nat \<Rightarrow> nat option" where
  "indexFunc s f truth i =
     (if i < length s
      then (case DecodeRuneInString (drop i s) of
              (r, wid) \<Rightarrow> if f r = truth then Some i else indexFunc s f truth (i + wid))
      else None)"
  by pat_completeness auto
termination
  by (relation "measure (\<lambda>(s, f, truth, i). length s - i)")
     (auto dest: DecodeRuneInString_wid)

declare indexFunc.simps [simp del]

function lastIndexFunc :: "string \<Rightarrow> (int \<Rightarrow> bool) \<Rightarrow> bool \<Rightarrow> nat \<Rightarrow> nat option" where
  "lastIndexFunc s f truth i =
     (if 0 < i \<and> i \<le> length s
      then (case DecodeLastRuneInString (take i s) of
              (r, wid) \<Rightarrow>
                if f r = truth then Some (i - wid) else lastIndexFunc s f truth (i - wid))
      else None)"
  by pat_completeness auto
termination
  by (relation "measure (\<lambda>(s, f, truth, i). i)")
     (auto dest: DecodeLastRuneInString_wid)

declare lastIndexFunc.simps [simp del]


definition TrimLeftFunc :: "string \<Rightarrow> (int \<Rightarrow> bool) \<Rightarrow> string" where
  "TrimLeftFunc s f = (case indexFunc s f False 0 of None \<Rightarrow> [] | Some i \<Rightarrow> drop i s)"

definition TrimRightFunc :: "string \<Rightarrow> (int \<Rightarrow> bool) \<Rightarrow> string" where
  "TrimRightFunc s f =
     (case lastIndexFunc s f False (length s) of
        None \<Rightarrow> take 0 s
      | Some i \<Rightarrow>
          if byte (s ! i) \<ge> RuneSelf
          then take (i + snd (DecodeRuneInString (drop i s))) s
          else take (i + 1) s)"

definition TrimFunc :: "string \<Rightarrow> (int \<Rightarrow> bool) \<Rightarrow> string" where
  "TrimFunc s f = TrimRightFunc (TrimLeftFunc s f) f"

text \<open>
  \<^verbatim>\<open>TrimSpace\<close> itself: its first loop is the recursion of \<open>TrimSpace\<close> over the string,
  its second loop is \<open>trimStop\<close>, which moves \<open>stop\<close> down from the end of what the
  first loop left.
\<close>

fun trimStop :: "string \<Rightarrow> nat \<Rightarrow> string" where
  "trimStop t 0 = take 0 t"
| "trimStop t (Suc k) =
     (if byte (t ! k) \<ge> RuneSelf then TrimRightFunc (take (Suc k) t) IsSpace
      else if asciiSpace (t ! k) then trimStop t k
      else take (Suc k) t)"

fun TrimSpace :: "string \<Rightarrow> string" where
  "TrimSpace [] = trimStop [] 0"
| "TrimSpace (c # cs) =
     (if byte c \<ge> RuneSelf then TrimFunc (c # cs) IsSpace
      else if asciiSpace c then TrimSpace cs
      else trimStop (c # cs) (length (c # cs)))"

text \<open>
  \<^verbatim>\<open>strings.SplitN(s, sep, n)\<close> for a one-byte separator. The loop of Go's
  \<^verbatim>\<open>genSplit\<close> cuts at the first separator at most \<open>n - 1\<close> times and stores the
  unsplit remainder last; \<open>n = 0\<close> gives no slice at all and \<open>n < 0\<close> cuts at every
  separator. \<^verbatim>\<open>strings.Split(s, sep)\<close> is \<^verbatim>\<open>SplitN(s, sep, -1)\<close>.
\<close>

fun genSplit :: "char \<Rightarrow> nat \<Rightarrow> string \<Rightarrow> string list" where
  "genSplit sep 0 s = [s]"
| "genSplit sep (Suc k) s =
     (if sep \<in> set s
      then takeWhile (\<lambda>c. c \<noteq> sep) s # genSplit sep k (tl (dropWhile (\<lambda>c. c \<noteq> sep) s))
      else [s])"

definition SplitN :: "string \<Rightarrow> char \<Rightarrow> int \<Rightarrow> string list" where
  "SplitN s sep n =
     (if n = 0 then []
      else if n < 0 then genSplit sep (count_list s sep) s
      else genSplit sep (nat (n - 1)) s)"

definition Split :: "string \<Rightarrow> char \<Rightarrow> string list" where
  "Split s sep = SplitN s sep (- 1)"

fun Join :: "string list \<Rightarrow> char \<Rightarrow> string" where
  "Join [] sep = []"
| "Join [x] sep = x"
| "Join (x # y # ys) sep = x @ sep # Join (y # ys) sep"

text \<open>A slice read \<^verbatim>\<open>xs[i]\<close> panics out of range.\<close>

datatype panic = IndexOutOfRange nat nat

definition index :: "'a list \<Rightarrow> nat \<Rightarrow> panic + 'a" where
  "index xs i = (if i < length xs then Inr (xs ! i) else Inl (IndexOutOfRange i (length xs)))"

subsection \<open>Data\<close>

text \<open>
  Modelled from the spec: the struct \<^verbatim>\<open>objInfo\<close> is declared in another file; its four
  fields are those the driver's composite literal sets (the Object Record of the
  specification).
\<close>

record objInfo =
  bucket :: string
  object :: string
  versionID :: string
  deleteMarker :: bool

datatype error =
    UrlParseError string
  | MissingConfig string string string string
  | ClientError string
  | CouldNotInitSrc error
  | CouldNotInitTgt error
  | ScanError string

text \<open>
  What the driver writes through \<^verbatim>\<open>logDMsg\<close> (the debug log) and \<^verbatim>\<open>logMsg\<close>. The last
  message of a live run is kept with the three numbers its format string receives:
  \<^verbatim>\<open>int64(count)\<close>, \<^verbatim>\<open>int64(copyState.getCount())\<close> and \<^verbatim>\<open>int64(latency)\<close>.
\<close>

datatype event =
    LogDMsg string "error option"
  | LogMsg string
  | LogCopied int int int

text \<open>
  How \<^verbatim>\<open>copyAction\<close> ends: \<^verbatim>\<open>log.Fatalln\<close> and \<^verbatim>\<open>console.Fatalln\<close> exit the process
  with status 1 (\<open>Fatal\<close> keeps the text of the message, without the error value that
  is printed after it for the manifest), an index out of range is a run-time panic,
  and otherwise the function returns its error value (\<open>None\<close> is \<^verbatim>\<open>nil\<close>).
\<close>

datatype outcome = Fatal string | Panicked panic | Return "error option"

datatype client = Client string bool

text \<open>The calls a worker can make: one read on the source, a write or a delete on the target.\<close>

datatype gw_call =
    GetObject string string string
  | PutObject string string string
  | RemoveObject string string string

record flags =
  srcEndpoint :: string
  srcAccessKey :: string
  srcSecretKey :: string
  srcBucket :: string
  tgtEndpoint :: string
  tgtAccessKey :: string
  tgtSecretKey :: string
  tgtBucket :: string
  dirPath :: string
  skip :: int
  fake :: bool

text \<open>
  \<open>url_Parse\<close> gives the scheme and the host of a URL, or \<open>None\<close> for a parse error;
  \<open>miniogo_New\<close> says whether the client library accepts a host; \<open>os_Open\<close> gives, for
  the manifest's path, the lines the scanner delivers and the error \<^verbatim>\<open>scanner.Err()\<close>
  reports after the last of them, or \<open>None\<close> when the file cannot be opened;
  \<open>gateway\<close> says which storage calls succeed; \<open>elapsed\<close> is the number of whole
  seconds between the two clock readings.
\<close>

record world =
  cli :: flags
  objListFile :: string
  url_Parse :: "string \<Rightarrow> (string \<times> string) option"
  miniogo_New :: "string \<Rightarrow> bool"
  os_Open :: "string \<Rightarrow> string \<Rightarrow> (string list \<times> string option) option"
  gateway :: "gw_call \<Rightarrow> bool"
  elapsed :: int

section \<open>The replication engine\<close>

text \<open>
  Modelled from the spec: the type \<^verbatim>\<open>copyState\<close> with \<^verbatim>\<open>newcopyState\<close>, \<^verbatim>\<open>init\<close>,
  \<^verbatim>\<open>queueUploadTask\<close>, \<^verbatim>\<open>finish\<close>, \<^verbatim>\<open>getCount\<close>, \<^verbatim>\<open>getFailCount\<close> and the worker's
  decision for one record are code of another file. The session holds the records
  waiting in the queue, whether the workers have been started, the two ledger counters, and
  the storage calls and log lines the workers have produced.
\<close>

datatype worker_log = WouldCopy objInfo | WouldDelete objInfo | Succeeded objInfo | Failed objInfo

record session =
  running :: bool
  pending :: "objInfo list"
  count :: nat
  failCount :: nat
  gwCalls :: "gw_call list"
  workerLog :: "worker_log list"

definition newcopyState :: session where
  "newcopyState =
     \<lparr>running = False, pending = [], count = 0, failCount = 0, gwCalls = [], workerLog = []\<rparr>"

text \<open>Modelled from the spec: \<^verbatim>\<open>init\<close> starts the workers, which wait on the empty queue.\<close>

definition init :: "session \<Rightarrow> session" where
  "init s = s\<lparr>running := True\<rparr>"

text \<open>Modelled from the spec: \<^verbatim>\<open>queueUploadTask\<close> puts the record at the end of the queue.\<close>

definition queueUploadTask :: "objInfo \<Rightarrow> session \<Rightarrow> session" where
  "queueUploadTask obj s = s\<lparr>pending := pending s @ [obj]\<rparr>"

text \<open>
  Modelled from the spec: one live attempt. A delete marker is one delete on the target;
  any other record is one read on the source and, when the read succeeds, one write
  on the target. The result is the calls made and whether the attempt succeeded.
\<close>

definition copyObject :: "(gw_call \<Rightarrow> bool) \<Rightarrow> objInfo \<Rightarrow> gw_call list \<times> bool" where
  "copyObject gw obj =
     (if deleteMarker obj
      then ([RemoveObject (bucket obj) (object obj) (versionID obj)],
            gw (RemoveObject (bucket obj) (object obj) (versionID obj)))
      else if gw (GetObject (bucket obj) (object obj) (versionID obj))
      then ([GetObject (bucket obj) (object obj) (versionID obj),
             PutObject (bucket obj) (object obj) (versionID obj)],
            gw (PutObject (bucket obj) (object obj) (versionID obj)))
      else ([GetObject (bucket obj) (object obj) (versionID obj)], False))"

text \<open>
  Modelled from the spec: what a worker does with one record (section 4.2). In a dry
  run it logs the intended action and counts the record as processed; otherwise it
  attempts the copy or delete, counts the record as processed and, when the attempt
  failed, as failed too.
\<close>

definition worker :: "bool \<Rightarrow> (gw_call \<Rightarrow> bool) \<Rightarrow> objInfo \<Rightarrow> session \<Rightarrow> session" where
  "worker dry gw obj s =
     (if dry
      then s\<lparr>count := count s + 1,
             workerLog := workerLog s @ [if deleteMarker obj then WouldDelete obj else WouldCopy obj]\<rparr>
      else (case copyObject gw obj of
              (cs, ok) \<Rightarrow>
                s\<lparr>count := count s + 1,
                  failCount := failCount s + (if ok then 0 else 1),
                  gwCalls := gwCalls s @ cs,
                  workerLog := workerLog s @ [if ok then Succeeded obj else Failed obj]\<rparr>))"

text \<open>
  Modelled from the spec: \<^verbatim>\<open>finish\<close> is the drain. It returns when every queued record
  has been through a worker. The driver reads the counters only after the drain and they
  do not depend on when or in which order the workers complete, so the queued records go
  through the worker here, in queue order.
\<close>

definition finish :: "bool \<Rightarrow> (gw_call \<Rightarrow> bool) \<Rightarrow> session \<Rightarrow> session" where
  "finish dry gw s = foldl (\<lambda>t obj. worker dry gw obj t) (s\<lparr>pending := []\<rparr>) (pending s)"

text \<open>
  Modelled from the spec: \<^verbatim>\<open>getCount\<close> and \<^verbatim>\<open>getFailCount\<close> read the two counters. The
  driver subtracts their results and converts them with \<^verbatim>\<open>int64(...)\<close>, so they are
  taken as 64-bit machine integers: the subtraction wraps around.
\<close>

definition getCount :: "session \<Rightarrow> 64 word" where
  "getCount s = of_nat (count s)"

definition getFailCount :: "session \<Rightarrow> 64 word" where
  "getFailCount s = of_nat (failCount s)"

text \<open>
  Modelled from the spec: the session as the workers and the producer see it while the
  run is under way. The producer enqueues a record; a worker completes any waiting
  record (completion order across workers is not fixed), with whatever the storage
  gateways answer.
\<close>

datatype action = Enqueue objInfo | Complete objInfo bool

inductive step :: "bool \<Rightarrow> session \<Rightarrow> action \<Rightarrow> session \<Rightarrow> bool" where
  enqueue: "step dry s (Enqueue obj) (queueUploadTask obj s)"
| complete:
    "i < length (pending s) \<Longrightarrow> obj = pending s ! i \<Longrightarrow>
     ok = (dry \<or> snd (copyObject gw obj)) \<Longrightarrow>
     step dry s (Complete obj ok)
       (worker dry gw obj (s\<lparr>pending := take i (pending s) @ drop (Suc i) (pending s)\<rparr>))"

code_pred step .

text \<open>\<open>exec dry as s\<close>: the actions \<open>as\<close>, in this order, lead from a new session to \<open>s\<close>.\<close>

inductive exec :: "bool \<Rightarrow> action list \<Rightarrow> session \<Rightarrow> bool" where
  start: "exec dry [] (init newcopyState)"
| after: "exec dry as s \<Longrightarrow> step dry s a s' \<Longrightarrow> exec dry (as @ [a]) s'"

code_pred exec .

fun completed :: "action \<Rightarrow> bool" where
  "completed (Complete obj ok) = True"
| "completed (Enqueue obj) = False"

fun failure :: "action \<Rightarrow> bool" where
  "failure (Complete obj ok) = (\<not> ok)"
| "failure (Enqueue obj) = False"

section \<open>The driver\<close>

text \<open>
  Modelled from the spec: the package variables \<^verbatim>\<open>copyState\<close> and \<^verbatim>\<open>dryRun\<close> and the
  logging functions \<^verbatim>\<open>logDMsg\<close> and \<^verbatim>\<open>logMsg\<close> are declared in another file. The
  state of a run holds the two variables and the messages logged so far, in order.
\<close>

record state =
  copyState :: session
  dryRun :: bool
  logs :: "event list"

definition logDMsg :: "string \<Rightarrow> error option \<Rightarrow> state \<Rightarrow> state" where
  "logDMsg msg e st = st\<lparr>logs := logs st @ [LogDMsg msg e]\<rparr>"

definition logMsg :: "string \<Rightarrow> state \<Rightarrow> state" where
  "logMsg msg st = st\<lparr>logs := logs st @ [LogMsg msg]\<rparr>"

text \<open>
  \<^verbatim>\<open>checkCopyArgsAndInit\<close>: the first empty flag, in the order of the source, ends the
  process; the result is the message of that exit, or \<open>None\<close> when all nine are set.
\<close>

definition checkCopyArgsAndInit :: "flags \<Rightarrow> string option" where
  "checkCopyArgsAndInit f =
     (if tgtEndpoint f = [] then Some ''--endpoint is not provided for target''
      else if tgtAccessKey f = [] then Some ''--access-key is not provided for target''
      else if tgtSecretKey f = [] then Some ''--secret-key is not provided for target''
      else if tgtBucket f = [] then Some ''--bucket not specified for target.''
      else if srcEndpoint f = [] then Some ''--src-endpoint is not provided''
      else if srcAccessKey f = [] then Some ''--src-access-key is not provided''
      else if srcSecretKey f = [] then Some ''--src-secret-key is not provided''
      else if srcBucket f = [] then Some ''--src-bucket not specified.''
      else if dirPath f = [] then Some ''path to working dir required, please set --data-dir flag''
      else None)"

definition initMinioClient ::
    "world \<Rightarrow> string \<Rightarrow> string \<Rightarrow> string \<Rightarrow> string \<Rightarrow> error + client" where
  "initMinioClient w accessKey secretKey minioBucket urlStr =
     (case url_Parse w urlStr of
        None \<Rightarrow> Inl (UrlParseError urlStr)
      | Some (scheme, host) \<Rightarrow>
          if accessKey = [] \<or> secretKey = [] \<or> minioBucket = []
          then Inl (MissingConfig accessKey secretKey minioBucket urlStr)
          else if miniogo_New w host then Inr (Client host (scheme = ''https''))
          else Inl (ClientError host))"

text \<open>
  The body of the scanning loop for a line that is not skipped. The fields of the
  composite literal are evaluated in order, so the first index that is out of range
  panics and nothing after it runs.
\<close>

definition loopBody :: "string \<Rightarrow> state \<Rightarrow> (panic \<times> state) + state" where
  "loopBody ln st =
     (let slc = SplitN ln CHR '','' 4;
          st1 = (if length slc < 3 \<or> length slc > 4
                 then logDMsg (''error processing line :'' @ ln @ '' '') None st
                 else st)
      in case index slc 0 of Inl p \<Rightarrow> Inl (p, st1) | Inr f0 \<Rightarrow>
        (case index slc 1 of Inl p \<Rightarrow> Inl (p, st1) | Inr f1 \<Rightarrow>
        (case index slc 2 of Inl p \<Rightarrow> Inl (p, st1) | Inr f2 \<Rightarrow>
        (case index slc 3 of Inl p \<Rightarrow> Inl (p, st1) | Inr f3 \<Rightarrow>
           Inr (logDMsg (''adding '' @ ln @ '' to copy queue'') None
                  (st1\<lparr>copyState :=
                         queueUploadTask
                           \<lparr>bucket = TrimSpace f0, object = TrimSpace f1,
                            versionID = TrimSpace f2,
                            deleteMarker = (TrimSpace f3 = ''true'')\<rparr>
                           (copyState st1)\<rparr>))))))"

fun scanLoop :: "int \<Rightarrow> string list \<Rightarrow> state \<Rightarrow> (panic \<times> state) + state" where
  "scanLoop sk [] st = Inr st"
| "scanLoop sk (ln # rest) st =
     (if sk > 0 then scanLoop (sk - 1) rest st
      else (case loopBody ln st of
              Inl e \<Rightarrow> Inl e
            | Inr st' \<Rightarrow> scanLoop sk rest st'))"

record result =
  outcome :: outcome
  final :: "state option"

text \<open>
  \<^verbatim>\<open>copyAction\<close>. \<open>final\<close> is the state of the engine and of the log when the function
  ends, and \<open>None\<close> when it ends before \<^verbatim>\<open>newcopyState\<close> is called. The flag
  \<open>dryRun\<close> is a package variable, \<open>False\<close> until the driver assigns it.
\<close>

definition copyAction :: "world \<Rightarrow> result" where
  "copyAction w =
     (let f = cli w in
      case checkCopyArgsAndInit f of
        Some msg \<Rightarrow> \<lparr>outcome = Fatal msg, final = None\<rparr>
      | None \<Rightarrow>
      (case initMinioClient w (srcAccessKey f) (srcSecretKey f) (srcBucket f) (srcEndpoint f) of
        Inl e \<Rightarrow> \<lparr>outcome = Return (Some (CouldNotInitSrc e)), final = None\<rparr>
      | Inr srcClient \<Rightarrow>
      (case initMinioClient w (tgtAccessKey f) (tgtSecretKey f) (tgtBucket f) (tgtEndpoint f) of
        Inl e \<Rightarrow> \<lparr>outcome = Return (Some (CouldNotInitTgt e)), final = None\<rparr>
      | Inr tgtClient \<Rightarrow>
      (let st0 = \<lparr>copyState = init newcopyState, dryRun = False, logs = []\<rparr>;
           st1 = st0\<lparr>dryRun := fake f\<rparr>
       in case os_Open w (dirPath f) (objListFile w) of
            None \<Rightarrow> \<lparr>outcome = Fatal ''--input-file needs to be specified'', final = Some st1\<rparr>
          | Some (lines, scanErr) \<Rightarrow>
            (case scanLoop (skip f) lines st1 of
               Inl (p, st) \<Rightarrow> \<lparr>outcome = Panicked p, final = Some st\<rparr>
             | Inr st \<Rightarrow>
               (case scanErr of
                  Some e \<Rightarrow>
                    \<lparr>outcome = Return (Some (ScanError e)),
                     final = Some (logDMsg (''error processing file :'' @ objListFile w @ '' '')
                                     (Some (ScanError e)) st)\<rparr>
                | None \<Rightarrow>
                    (let st2 = st\<lparr>copyState := finish (dryRun st) (gateway w) (copyState st)\<rparr>
                     in if dryRun st2
                        then \<lparr>outcome = Return None,
                              final = Some (logMsg ''copy dry run complete'' st2)\<rparr>
                        else (let cnt = getCount (copyState st2) - getFailCount (copyState st2)
                              in \<lparr>outcome = Return None,
                                  final = Some (st2\<lparr>logs := logs st2 @
                                            [LogCopied (sint cnt) (sint (getCount (copyState st2)))
                                               (elapsed w)]\<rparr>)\<rparr>))))))))"

text \<open>
  The core starts (\<^verbatim>\<open>newcopyState\<close> and \<^verbatim>\<open>init\<close> are reached) exactly when all nine
  flags are set and both clients are built.
\<close>

definition started :: "world \<Rightarrow> bool" where
  "started w =
     (checkCopyArgsAndInit (cli w) = None \<and>
      \<not> isl (initMinioClient w (srcAccessKey (cli w)) (srcSecretKey (cli w)) (srcBucket (cli w))
               (srcEndpoint (cli w))) \<and>
      \<not> isl (initMinioClient w (tgtAccessKey (cli w)) (tgtSecretKey (cli w)) (tgtBucket (cli w))
               (tgtEndpoint (cli w))))"

text \<open>The final line of a run: the live report or the dry-run notice.\<close>

fun summary :: "event \<Rightarrow> bool" where
  "summary (LogCopied n m secs) = True"
| "summary (LogMsg msg) = (msg = ''copy dry run complete'')"
| "summary (LogDMsg msg e) = False"

section \<open>Sample inputs\<close>

text \<open>
  The command line of the example in the command's help text, and a world in which both
  endpoints parse, both clients are built, the manifest holds the given lines and every
  storage call succeeds.
\<close>

definition demoFlags :: flags where
  "demoFlags =
     \<lparr>srcEndpoint = ''https://minio1'', srcAccessKey = ''minio1'',
      srcSecretKey = ''minio123'', srcBucket = ''srcbucket'',
      tgtEndpoint = ''https://minio2'', tgtAccessKey = ''minio'',
      tgtSecretKey = ''minio123'', tgtBucket = ''dstbucket'',
      dirPath = ''/tmp/data'', skip = 0, fake = False\<rparr>"

definition demoWorld :: "string list \<Rightarrow> world" where
  "demoWorld lns =
     \<lparr>cli = demoFlags, objListFile = ''object_listing.txt'',
      url_Parse = (\<lambda>u. Some (''https'', drop 8 u)),
      miniogo_New = (\<lambda>h. True),
      os_Open = (\<lambda>d f. Some (lns, None)),
      gateway = (\<lambda>c. True),
      elapsed = 7\<rparr>"

text \<open>
  The specification's notion of a well-formed manifest line: three or four
  comma-separated fields.
\<close>

definition wellFormed :: "string \<Rightarrow> bool" where
  "wellFormed ln = (3 \<le> length (Split ln CHR '','') \<and> length (Split ln CHR '','') \<le> 4)"

section \<open>Properties of the library functions\<close>

lemmas trim_defs =
  byte_def RuneSelf_def RuneError_def asciiSpace_def IsSpace_def first_def acceptRanges_def
  DecodeRuneInString_def DecodeLastRuneInString_def RuneStart_def backUp.simps
  indexFunc.simps lastIndexFunc.simps TrimLeftFunc_def TrimRightFunc_def TrimFunc_def Let_def

text \<open>
  The width that \<open>lastIndexFunc\<close> subtracts from its index is never more than the
  index.
\<close>

lemma DecodeLastRuneInString_le: "snd (DecodeLastRuneInString s) \<le> length s"
proof -
  define start where "start = max 0 (backUp s (max 0 (int (length s) - 4)) (int (length s) - 2))"
  obtain r wid where d: "DecodeRuneInString (drop (nat start) s) = (r, wid)"
    by (cases "DecodeRuneInString (drop (nat start) s)")
  have pos: "0 \<le> start" by (simp add: start_def)
  show ?thesis
  proof (cases "s = []")
    case True
    then show ?thesis by (simp add: DecodeLastRuneInString_def)
  next
    case False
    then have "1 \<le> length s" by (cases s) auto
    with pos d show ?thesis
      by (auto simp: DecodeLastRuneInString_def Let_def start_def [symmetric])
  qed
qed

lemma DecodeRuneInString_examples:
  "DecodeRuneInString ''a'' = (0x61, 1)"
  "DecodeRuneInString [CHR 0xC2, CHR 0xA0] = (0xA0, 2)"
  "DecodeRuneInString [CHR 0xE2, CHR 0x80, CHR 0x83] = (0x2003, 3)"
  "DecodeRuneInString [CHR 0xF0, CHR 0x9F, CHR 0x98, CHR 0x80] = (0x1F600, 4)"
  "DecodeRuneInString [CHR 0xC0, CHR 0x80] = (RuneError, 1)"
  "DecodeRuneInString [CHR 0xED, CHR 0xA0, CHR 0x80] = (RuneError, 1)"
  "DecodeRuneInString [CHR 0xE2, CHR 0x80] = (RuneError, 1)"
  by (simp_all add: DecodeRuneInString_def byte_def first_def acceptRanges_def Let_def)

text \<open>White space around a field, in ASCII and beyond, and bytes that are not white space.\<close>

lemma TrimSpace_ascii: "TrimSpace ([CHR 0x09] @ '' a b '' @ [CHR 0x0D, CHR 0x0A]) = ''a b''"
  by (simp add: trim_defs)

lemma TrimSpace_unicode:
  "TrimSpace ([CHR 0xC2, CHR 0xA0] @ ''a'' @ [CHR 0xE2, CHR 0x80, CHR 0x83]) = ''a''"
  "TrimSpace ('' '' @ [CHR 0xC2, CHR 0x85] @ ''x'' @ [CHR 0xE3, CHR 0x80, CHR 0x80] @ '' '') = ''x''"
  by (simp_all add: trim_defs)

lemma TrimSpace_not_space:
  "TrimSpace ([CHR 0xA0] @ ''a'' @ [CHR 0x80]) = [CHR 0xA0] @ ''a'' @ [CHR 0x80]"
  "TrimSpace [CHR 0xE2, CHR 0x80, CHR 0x8B] = [CHR 0xE2, CHR 0x80, CHR 0x8B]"
  by (simp_all add: trim_defs)

lemma SplitN_4: "SplitN s sep 4 = genSplit sep (Suc (Suc (Suc 0))) s"
  by (simp add: SplitN_def eval_nat_numeral)

lemma Split_genSplit: "Split s sep = genSplit sep (count_list s sep) s"
  by (simp add: Split_def SplitN_def)

lemma count_list_cut:
  "sep \<in> set s \<Longrightarrow> count_list s sep = Suc (count_list (tl (dropWhile (\<lambda>c. c \<noteq> sep) s)) sep)"
  by (induction s) auto

lemma cut_join:
  "sep \<in> set s \<Longrightarrow> takeWhile (\<lambda>c. c \<noteq> sep) s @ sep # tl (dropWhile (\<lambda>c. c \<noteq> sep) s) = s"
  by (induction s) auto

lemma count_list_0: "sep \<notin> set s \<Longrightarrow> count_list s sep = 0"
  by (induction s) auto

lemma genSplit_not_Nil: "genSplit sep k s \<noteq> []"
  by (cases k) auto

lemma Join_Cons: "xs \<noteq> [] \<Longrightarrow> Join (x # xs) sep = x @ sep # Join xs sep"
  by (cases xs) auto

lemma Join_genSplit: "Join (genSplit sep k s) sep = s"
proof (induction k arbitrary: s)
  case 0
  show ?case by simp
next
  case (Suc k)
  show ?case
    by (simp add: Join_Cons genSplit_not_Nil Suc cut_join)
qed

lemma length_genSplit: "length (genSplit sep k s) = Suc (min k (count_list s sep))"
proof (induction k arbitrary: s)
  case 0
  show ?case by simp
next
  case (Suc k)
  show ?case
    by (simp add: Suc count_list_cut count_list_0)
qed

lemma genSplit_take:
  "k \<le> n \<Longrightarrow> k \<le> count_list s sep \<Longrightarrow>
   genSplit sep k s = take k (genSplit sep n s) @ [Join (drop k (genSplit sep n s)) sep]"
proof (induction k arbitrary: s n)
  case 0
  show ?case by (simp add: Join_genSplit)
next
  case (Suc k)
  from Suc.prems obtain m where n: "n = Suc m" and km: "k \<le> m" by (cases n) auto
  from Suc.prems have mem: "sep \<in> set s"
    by (cases "sep \<in> set s") (auto simp: count_list_0)
  with Suc.prems have "k \<le> count_list (tl (dropWhile (\<lambda>c. c \<noteq> sep) s)) sep"
    by (simp add: count_list_cut)
  from Suc.IH [OF km this] mem show ?case by (simp add: n)
qed

lemma length_Split: "length (Split s sep) = Suc (count_list s sep)"
  by (simp add: Split_def SplitN_def length_genSplit)

lemma genSplit_enough:
  "count_list s sep \<le> k \<Longrightarrow> genSplit sep k s = genSplit sep (count_list s sep) s"
proof (induction k arbitrary: s)
  case 0
  then show ?case by simp
next
  case (Suc k)
  show ?case
  proof (cases "sep \<in> set s")
    case True
    with Suc.prems have "count_list (tl (dropWhile (\<lambda>c. c \<noteq> sep) s)) sep \<le> k"
      by (simp add: count_list_cut)
    from Suc.IH [OF this] True show ?thesis by (simp add: count_list_cut)
  next
    case False
    then show ?thesis by (simp add: count_list_0)
  qed
qed

lemma SplitN_4_of_Split:
  assumes "length (Split s sep) \<ge> 4"
  shows "SplitN s sep 4 = take 3 (Split s sep) @ [Join (drop 3 (Split s sep)) sep]"
proof -
  from assms have "3 \<le> count_list s sep" by (simp add: length_Split)
  from genSplit_take [OF this this]
  show ?thesis by (simp add: SplitN_def Split_def)
qed

lemma SplitN_4_short:
  assumes "length (Split s sep) \<le> 4"
  shows "SplitN s sep 4 = Split s sep"
proof -
  from assms have "count_list s sep \<le> 3" by (simp add: length_Split)
  from genSplit_enough [OF this]
  show ?thesis by (simp add: SplitN_def Split_def)
qed


section \<open>The engine's ledger\<close>

lemma worker_count: "count (worker dry gw obj s) = Suc (count s)"
  by (simp add: worker_def split: prod.split)

lemma worker_failCount:
  "failCount (worker dry gw obj s) =
     failCount s + (if dry \<or> snd (copyObject gw obj) then 0 else 1)"
  by (simp add: worker_def split: prod.split)

lemma worker_pending: "pending (worker dry gw obj s) = pending s"
  by (simp add: worker_def split: prod.split)

lemma worker_running: "running (worker dry gw obj s) = running s"
  by (simp add: worker_def split: prod.split)

lemma worker_dry_gwCalls: "gwCalls (worker True gw obj s) = gwCalls s"
  by (simp add: worker_def)

lemma foldl_worker:
  "count (foldl (\<lambda>t obj. worker dry gw obj t) s xs) = count s + length xs \<and>
   pending (foldl (\<lambda>t obj. worker dry gw obj t) s xs) = pending s \<and>
   running (foldl (\<lambda>t obj. worker dry gw obj t) s xs) = running s \<and>
   failCount s \<le> failCount (foldl (\<lambda>t obj. worker dry gw obj t) s xs) \<and>
   failCount (foldl (\<lambda>t obj. worker dry gw obj t) s xs) \<le> failCount s + length xs"
proof (induction xs arbitrary: s)
  case Nil
  show ?case by simp
next
  case (Cons x xs)
  from Cons.IH [of "worker dry gw x s"] show ?case
    by (auto simp: worker_count worker_failCount worker_pending worker_running
        split: if_splits)
qed

lemma foldl_worker_dry:
  "gwCalls (foldl (\<lambda>t obj. worker True gw obj t) s xs) = gwCalls s \<and>
   failCount (foldl (\<lambda>t obj. worker True gw obj t) s xs) = failCount s"
proof (induction xs arbitrary: s)
  case Nil
  show ?case by simp
next
  case (Cons x xs)
  from Cons.IH [of "worker True gw x s"] show ?case
    by (simp add: worker_dry_gwCalls worker_failCount)
qed

lemma finish_count: "count (finish dry gw s) = count s + length (pending s)"
  using foldl_worker [of dry gw "s\<lparr>pending := []\<rparr>" "pending s"] by (simp add: finish_def)

lemma finish_pending: "pending (finish dry gw s) = []"
  using foldl_worker [of dry gw "s\<lparr>pending := []\<rparr>" "pending s"] by (simp add: finish_def)

lemma finish_failCount:
  "failCount s \<le> failCount (finish dry gw s) \<and>
   failCount (finish dry gw s) \<le> failCount s + length (pending s)"
  using foldl_worker [of dry gw "s\<lparr>pending := []\<rparr>" "pending s"] by (simp add: finish_def)

lemma finish_dry:
  "gwCalls (finish True gw s) = gwCalls s \<and> failCount (finish True gw s) = failCount s"
  using foldl_worker_dry [of gw "s\<lparr>pending := []\<rparr>" "pending s"] by (simp add: finish_def)

lemma step_counters:
  assumes "step dry s a s'"
  shows "count s' = count s + (if completed a then 1 else 0) \<and>
         failCount s' = failCount s + (if failure a then 1 else 0)"
  using assms
  by (induction rule: step.induct)
     (auto simp: queueUploadTask_def worker_count worker_failCount)

lemma exec_counters:
  assumes "exec dry as s"
  shows "count s = length (filter completed as) \<and> failCount s = length (filter failure as)"
  using assms
proof (induction rule: exec.induct)
  case (start dry)
  show ?case by (simp add: newcopyState_def init_def)
next
  case (after dry as s a s')
  from step_counters [OF after.hyps(2)] after.IH show ?case by simp
qed

lemma failure_completed: "failure a \<Longrightarrow> completed a"
  by (cases a) simp_all

lemma filter_failure_le: "length (filter failure as) \<le> length (filter completed as)"
proof (induction as)
  case Nil
  show ?case by simp
next
  case (Cons a as)
  then show ?case using failure_completed [of a] by auto
qed

lemma worker_pending_update:
  "worker dry gw obj (s\<lparr>pending := xs\<rparr>) = (worker dry gw obj s)\<lparr>pending := xs\<rparr>"
  by (simp add: worker_def split: prod.split)

lemma exec_drain:
  assumes "exec dry as s" and "pending s = xs"
  shows "\<exists>as'. exec dry (as @ as') (foldl (\<lambda>t obj. worker dry gw obj t) (s\<lparr>pending := []\<rparr>) xs)"
  using assms
proof (induction xs arbitrary: as s)
  case Nil
  then have "s\<lparr>pending := []\<rparr> = s" by simp
  with Nil.prems(1) have "exec dry (as @ []) (foldl (\<lambda>t obj. worker dry gw obj t) (s\<lparr>pending := []\<rparr>) [])"
    by simp
  then show ?case by blast
next
  case (Cons x xs)
  let ?s1 = "worker dry gw x (s\<lparr>pending := take 0 (pending s) @ drop (Suc 0) (pending s)\<rparr>)"
  have "step dry s (Complete x (dry \<or> snd (copyObject gw x))) ?s1"
    by (rule step.complete [where i = 0]) (simp_all add: Cons.prems(2))
  with Cons.prems(1) have e1: "exec dry (as @ [Complete x (dry \<or> snd (copyObject gw x))]) ?s1"
    by (rule exec.after)
  have p1: "pending ?s1 = xs" by (simp add: worker_pending Cons.prems(2))
  from Cons.IH [OF e1 p1] obtain as' where
    "exec dry ((as @ [Complete x (dry \<or> snd (copyObject gw x))]) @ as')
       (foldl (\<lambda>t obj. worker dry gw obj t) (?s1\<lparr>pending := []\<rparr>) xs)" ..
  moreover have "?s1\<lparr>pending := []\<rparr> = worker dry gw x (s\<lparr>pending := []\<rparr>)"
    by (simp add: worker_pending_update)
  ultimately have "exec dry (as @ (Complete x (dry \<or> snd (copyObject gw x)) # as'))
       (foldl (\<lambda>t obj. worker dry gw obj t) (s\<lparr>pending := []\<rparr>) (x # xs))"
    by simp
  then show ?case by blast
qed

lemma exec_finish:
  assumes "exec dry as s"
  shows "\<exists>as'. exec dry (as @ as') (finish dry gw s)"
  using exec_drain [OF assms refl] by (simp add: finish_def)

text \<open>
  C6. At every point of a run (the state \<open>s\<close> reached by the actions \<open>as\<close>) the
  processed counter is the number of tasks completed so far and the failed counter is the
  number of those that failed, so the failed counter never exceeds the processed counter.
  Any further step leaves each counter as it is or adds one to it: a completed task is
  counted exactly once, as processed and, when it failed, as failed; no step decrements
  a counter.
\<close>

theorem ledger_counts_tasks:
  assumes "exec dry as s" and "step dry s a s'"
  shows "count s = length (filter completed as) \<and>
         failCount s = length (filter failure as) \<and>
         failCount s \<le> count s \<and>
         count s' = count s + (if completed a then 1 else 0) \<and>
         failCount s' = failCount s + (if failure a then 1 else 0) \<and>
         count s \<le> count s' \<and> failCount s \<le> failCount s'"
  using exec_counters [OF assms(1)] filter_failure_le [of as] step_counters [OF assms(2)]
  by simp

theorem ledger_counts_tasks_witness:
  "exec False
     [Enqueue \<lparr>bucket = ''b1'', object = ''k2'', versionID = ''v2'', deleteMarker = True\<rparr>,
      Complete \<lparr>bucket = ''b1'', object = ''k2'', versionID = ''v2'', deleteMarker = True\<rparr> False]
     \<lparr>running = True, pending = [], count = 1, failCount = 1,
      gwCalls = [RemoveObject ''b1'' ''k2'' ''v2''],
      workerLog = [Failed \<lparr>bucket = ''b1'', object = ''k2'', versionID = ''v2'',
                           deleteMarker = True\<rparr>]\<rparr> \<and>
   step False
     \<lparr>running = True, pending = [], count = 1, failCount = 1,
      gwCalls = [RemoveObject ''b1'' ''k2'' ''v2''],
      workerLog = [Failed \<lparr>bucket = ''b1'', object = ''k2'', versionID = ''v2'',
                           deleteMarker = True\<rparr>]\<rparr>
     (Enqueue \<lparr>bucket = ''b1'', object = ''k1'', versionID = ''v1'', deleteMarker = False\<rparr>)
     (queueUploadTask
        \<lparr>bucket = ''b1'', object = ''k1'', versionID = ''v1'', deleteMarker = False\<rparr>
        \<lparr>running = True, pending = [], count = 1, failCount = 1,
         gwCalls = [RemoveObject ''b1'' ''k2'' ''v2''],
         workerLog = [Failed \<lparr>bucket = ''b1'', object = ''k2'', versionID = ''v2'',
                              deleteMarker = True\<rparr>]\<rparr>) \<and>
   count (queueUploadTask
        \<lparr>bucket = ''b1'', object = ''k1'', versionID = ''v1'', deleteMarker = False\<rparr>
        \<lparr>running = True, pending = [], count = 1, failCount = 1,
         gwCalls = [RemoveObject ''b1'' ''k2'' ''v2''],
         workerLog = [Failed \<lparr>bucket = ''b1'', object = ''k2'', versionID = ''v2'',
                              deleteMarker = True\<rparr>]\<rparr>) = 1"
proof -
  let ?o = "\<lparr>bucket = ''b1'', object = ''k2'', versionID = ''v2'', deleteMarker = True\<rparr>"
  let ?s1 = "queueUploadTask ?o (init newcopyState)"
  have e0: "exec False [] (init newcopyState)" by (rule exec.start)
  have "step False (init newcopyState) (Enqueue ?o) ?s1" by (rule step.enqueue)
  with e0 have e1: "exec False ([] @ [Enqueue ?o]) ?s1" by (rule exec.after)
  have "step False ?s1 (Complete ?o False)
          (worker False (\<lambda>c. False) ?o
             (?s1\<lparr>pending := take 0 (pending ?s1) @ drop (Suc 0) (pending ?s1)\<rparr>))"
    by (rule step.complete [where i = 0])
       (simp_all add: queueUploadTask_def copyObject_def newcopyState_def init_def)
  with e1 have "exec False (([] @ [Enqueue ?o]) @ [Complete ?o False])
          (worker False (\<lambda>c. False) ?o
             (?s1\<lparr>pending := take 0 (pending ?s1) @ drop (Suc 0) (pending ?s1)\<rparr>))"
    by (rule exec.after)
  then have e: "exec False [Enqueue ?o, Complete ?o False]
     \<lparr>running = True, pending = [], count = 1, failCount = 1,
      gwCalls = [RemoveObject ''b1'' ''k2'' ''v2''], workerLog = [Failed ?o]\<rparr>"
    by (simp add: queueUploadTask_def worker_def copyObject_def newcopyState_def init_def)
  have s: "step False
     \<lparr>running = True, pending = [], count = 1, failCount = 1,
      gwCalls = [RemoveObject ''b1'' ''k2'' ''v2''], workerLog = [Failed ?o]\<rparr>
     (Enqueue \<lparr>bucket = ''b1'', object = ''k1'', versionID = ''v1'', deleteMarker = False\<rparr>)
     (queueUploadTask
        \<lparr>bucket = ''b1'', object = ''k1'', versionID = ''v1'', deleteMarker = False\<rparr>
        \<lparr>running = True, pending = [], count = 1, failCount = 1,
         gwCalls = [RemoveObject ''b1'' ''k2'' ''v2''], workerLog = [Failed ?o]\<rparr>)"
    by (rule step.enqueue)
  from ledger_counts_tasks [OF e s] e s show ?thesis by simp
qed

subsection \<open>The counters as 64-bit integers\<close>

lemma sint_of_nat_64:
  assumes "n < 2 ^ 63"
  shows "sint (of_nat n :: 64 word) = int n"
proof -
  have "sint (of_nat n :: 64 word) = signed_take_bit 63 (int n)"
    using signed_of_nat [where 'a = int and 'b = 64, of n] by simp
  also have "\<dots> = int n"
    using assms by (simp add: signed_take_bit_int_eq_self)
  finally show ?thesis .
qed

lemma sint_diff_64:
  assumes "f \<le> c" "c < 2 ^ 63"
  shows "sint (of_nat c - of_nat f :: 64 word) = int c - int f"
proof -
  have "(of_nat c - of_nat f :: 64 word) = of_nat (c - f)"
    using assms(1) by simp
  moreover have "c - f < 2 ^ 63" using assms by simp
  ultimately have "sint (of_nat c - of_nat f :: 64 word) = int (c - f)"
    by (simp only: sint_of_nat_64)
  then show ?thesis using assms(1) by simp
qed

section \<open>The scanning loop\<close>

lemma index_simps:
  "i < length xs \<Longrightarrow> index xs i = Inr (xs ! i)"
  "length xs \<le> i \<Longrightarrow> index xs i = Inl (IndexOutOfRange i (length xs))"
  by (simp_all add: index_def)

lemma length_SplitN_4: "length (SplitN s sep 4) = min 4 (length (Split s sep))"
  by (simp add: SplitN_def length_Split length_genSplit)

lemma loopBody_four:
  assumes "4 \<le> length (Split ln CHR '','')"
  shows "loopBody ln st =
    Inr (logDMsg (''adding '' @ ln @ '' to copy queue'') None
          (st\<lparr>copyState :=
               queueUploadTask
                 \<lparr>bucket = TrimSpace (Split ln CHR '','' ! 0),
                  object = TrimSpace (Split ln CHR '','' ! 1),
                  versionID = TrimSpace (Split ln CHR '','' ! 2),
                  deleteMarker = (TrimSpace (Join (drop 3 (Split ln CHR '','')) CHR '','') = ''true'')\<rparr>
                 (copyState st)\<rparr>))"
proof -
  let ?slc = "SplitN ln CHR '','' 4"
  have slc: "?slc = take 3 (Split ln CHR '','') @ [Join (drop 3 (Split ln CHR '','')) CHR '','']"
    by (rule SplitN_4_of_Split [OF assms])
  have len: "length ?slc = 4" using assms by (simp add: length_SplitN_4)
  have nth: "?slc ! 0 = Split ln CHR '','' ! 0" "?slc ! Suc 0 = Split ln CHR '','' ! Suc 0"
    "?slc ! 2 = Split ln CHR '','' ! 2"
    "?slc ! 3 = Join (drop 3 (Split ln CHR '','')) CHR '',''"
    using assms by (simp_all add: slc nth_append)
  show ?thesis
    unfolding loopBody_def Let_def by (simp add: index_simps len nth)
qed

lemma loopBody_three:
  assumes "length (Split ln CHR '','') = 3"
  shows "loopBody ln st = Inl (IndexOutOfRange 3 3, st)"
proof -
  have len: "length (SplitN ln CHR '','' 4) = 3" using assms by (simp add: length_SplitN_4)
  show ?thesis
    unfolding loopBody_def Let_def by (simp add: index_simps len)
qed

lemma loopBody_short:
  assumes "length (Split ln CHR '','') < 3"
  shows "loopBody ln st =
    Inl (IndexOutOfRange (length (Split ln CHR '','')) (length (Split ln CHR '','')),
         logDMsg (''error processing line :'' @ ln @ '' '') None st)"
proof -
  have len: "length (SplitN ln CHR '','' 4) = length (Split ln CHR '','')"
    using assms by (simp add: length_SplitN_4)
  have pos: "0 < length (Split ln CHR '','')" by (simp add: length_Split)
  then consider "length (Split ln CHR '','') = 1" | "length (Split ln CHR '','') = 2"
    using assms by linarith
  then show ?thesis
  proof cases
    case 1
    then show ?thesis unfolding loopBody_def Let_def by (simp add: index_simps len)
  next
    case 2
    then show ?thesis unfolding loopBody_def Let_def by (simp add: index_simps len)
  qed
qed

lemma scanLoop_drop: "scanLoop sk lns st = scanLoop 0 (drop (nat sk) lns) st"
proof (induction lns arbitrary: sk st)
  case Nil
  show ?case by simp
next
  case (Cons ln rest)
  show ?case
  proof (cases "sk > 0")
    case True
    then have "nat sk = Suc (nat (sk - 1))" by simp
    with True Cons.IH [of "sk - 1" st] show ?thesis by simp
  next
    case False
    then have "scanLoop sk rest st' = scanLoop 0 rest st'" for st'
      using Cons.IH [of sk st'] by simp
    with False show ?thesis by (simp split: sum.split)
  qed
qed

lemma loopBody_dryRun:
  "loopBody ln (st\<lparr>dryRun := d\<rparr>) =
     (case loopBody ln st of
        Inl (p, s) \<Rightarrow> Inl (p, s\<lparr>dryRun := d\<rparr>)
      | Inr s \<Rightarrow> Inr (s\<lparr>dryRun := d\<rparr>))"
  unfolding loopBody_def Let_def logDMsg_def
  by (simp split: sum.split)

lemma scanLoop_dryRun:
  "scanLoop sk lns (st\<lparr>dryRun := d\<rparr>) =
     (case scanLoop sk lns st of
        Inl (p, s) \<Rightarrow> Inl (p, s\<lparr>dryRun := d\<rparr>)
      | Inr s \<Rightarrow> Inr (s\<lparr>dryRun := d\<rparr>))"
proof (induction lns arbitrary: sk st)
  case Nil
  show ?case by simp
next
  case (Cons ln rest)
  show ?case
    by (simp add: Cons.IH loopBody_dryRun split: sum.split prod.split)
qed

lemma loopBody_keeps:
  assumes "loopBody ln st = Inr st' \<or> loopBody ln st = Inl (p, st')"
  shows "dryRun st' = dryRun st \<and> count (copyState st') = count (copyState st) \<and>
         failCount (copyState st') = failCount (copyState st) \<and>
         gwCalls (copyState st') = gwCalls (copyState st) \<and>
         workerLog (copyState st') = workerLog (copyState st)"
  using assms
  unfolding loopBody_def Let_def logDMsg_def queueUploadTask_def
  by (auto split: sum.splits if_splits)

lemma scanLoop_keeps:
  assumes "scanLoop sk lns st = Inr st' \<or> scanLoop sk lns st = Inl (p, st')"
  shows "dryRun st' = dryRun st \<and> count (copyState st') = count (copyState st) \<and>
         failCount (copyState st') = failCount (copyState st) \<and>
         gwCalls (copyState st') = gwCalls (copyState st) \<and>
         workerLog (copyState st') = workerLog (copyState st)"
  using assms
proof (induction lns arbitrary: sk st)
  case Nil
  then show ?case by simp
next
  case (Cons ln rest)
  show ?case
  proof (cases "sk > 0")
    case True
    with Cons.prems have "scanLoop (sk - 1) rest st = Inr st' \<or> scanLoop (sk - 1) rest st = Inl (p, st')"
      by simp
    from Cons.IH [OF this] show ?thesis .
  next
    case False
    show ?thesis
    proof (cases "loopBody ln st")
      case (Inl e)
      with False Cons.prems have "loopBody ln st = Inl (p, st')" by simp
      then show ?thesis using loopBody_keeps by blast
    next
      case (Inr st1)
      with False Cons.prems have "scanLoop sk rest st1 = Inr st' \<or> scanLoop sk rest st1 = Inl (p, st')"
        by simp
      from Cons.IH [OF this] loopBody_keeps [of ln st st1 p] Inr show ?thesis by simp
    qed
  qed
qed

subsection \<open>The paths through the driver\<close>

lemma copyAction_no_flags:
  assumes "checkCopyArgsAndInit (cli w) = Some msg"
  shows "copyAction w = \<lparr>outcome = Fatal msg, final = None\<rparr>"
  using assms by (simp add: copyAction_def)

lemma copyAction_no_src:
  assumes "checkCopyArgsAndInit (cli w) = None"
    and "initMinioClient w (srcAccessKey (cli w)) (srcSecretKey (cli w)) (srcBucket (cli w))
           (srcEndpoint (cli w)) = Inl e"
  shows "copyAction w = \<lparr>outcome = Return (Some (CouldNotInitSrc e)), final = None\<rparr>"
  using assms by (simp add: copyAction_def)

lemma copyAction_no_tgt:
  assumes "checkCopyArgsAndInit (cli w) = None"
    and "initMinioClient w (srcAccessKey (cli w)) (srcSecretKey (cli w)) (srcBucket (cli w))
           (srcEndpoint (cli w)) = Inr c"
    and "initMinioClient w (tgtAccessKey (cli w)) (tgtSecretKey (cli w)) (tgtBucket (cli w))
           (tgtEndpoint (cli w)) = Inl e"
  shows "copyAction w = \<lparr>outcome = Return (Some (CouldNotInitTgt e)), final = None\<rparr>"
  using assms by (simp add: copyAction_def)

lemma copyAction_started:
  assumes "started w"
  shows "copyAction w =
    (let st1 = \<lparr>copyState = init newcopyState, dryRun = fake (cli w), logs = []\<rparr>
     in case os_Open w (dirPath (cli w)) (objListFile w) of
            None \<Rightarrow> \<lparr>outcome = Fatal ''--input-file needs to be specified'', final = Some st1\<rparr>
          | Some (lines, scanErr) \<Rightarrow>
            (case scanLoop (skip (cli w)) lines st1 of
               Inl (p, st) \<Rightarrow> \<lparr>outcome = Panicked p, final = Some st\<rparr>
             | Inr st \<Rightarrow>
               (case scanErr of
                  Some e \<Rightarrow>
                    \<lparr>outcome = Return (Some (ScanError e)),
                     final = Some (logDMsg (''error processing file :'' @ objListFile w @ '' '')
                                     (Some (ScanError e)) st)\<rparr>
                | None \<Rightarrow>
                    (let st2 = st\<lparr>copyState := finish (dryRun st) (gateway w) (copyState st)\<rparr>
                     in if dryRun st2
                        then \<lparr>outcome = Return None,
                              final = Some (logMsg ''copy dry run complete'' st2)\<rparr>
                        else (let cnt = getCount (copyState st2) - getFailCount (copyState st2)
                              in \<lparr>outcome = Return None,
                                  final = Some (st2\<lparr>logs := logs st2 @
                                            [LogCopied (sint cnt) (sint (getCount (copyState st2)))
                                               (elapsed w)]\<rparr>)\<rparr>)))))"
proof -
  from assms obtain c1 c2 where
    a: "checkCopyArgsAndInit (cli w) = None" and
    b: "initMinioClient w (srcAccessKey (cli w)) (srcSecretKey (cli w)) (srcBucket (cli w))
          (srcEndpoint (cli w)) = Inr c1" and
    c: "initMinioClient w (tgtAccessKey (cli w)) (tgtSecretKey (cli w)) (tgtBucket (cli w))
          (tgtEndpoint (cli w)) = Inr c2"
    unfolding started_def by (auto simp: isl_def) (metis sum.exhaust)
  show ?thesis
    by (simp add: copyAction_def a b c Let_def split: sum.split option.split prod.split)
qed


lemma loopBody_keeps_running:
  assumes "loopBody ln st = Inr st' \<or> loopBody ln st = Inl (p, st')"
  shows "running (copyState st') = running (copyState st)"
  using assms
  unfolding loopBody_def Let_def logDMsg_def queueUploadTask_def
  by (auto split: sum.splits if_splits)

lemma checkCopyArgsAndInit_skip [simp]:
  "checkCopyArgsAndInit (f\<lparr>skip := k\<rparr>) = checkCopyArgsAndInit f"
  by (simp add: checkCopyArgsAndInit_def)

lemma checkCopyArgsAndInit_fake [simp]:
  "checkCopyArgsAndInit (f\<lparr>fake := k\<rparr>) = checkCopyArgsAndInit f"
  by (simp add: checkCopyArgsAndInit_def)

lemma initMinioClient_world [simp]:
  "initMinioClient (w\<lparr>cli := c\<rparr>) a b d u = initMinioClient w a b d u"
  "initMinioClient (w\<lparr>os_Open := opn\<rparr>) a b d u = initMinioClient w a b d u"
  "initMinioClient (w\<lparr>gateway := g\<rparr>) a b d u = initMinioClient w a b d u"
  by (simp_all add: initMinioClient_def split: option.split)

lemma checkCopyArgsAndInit_None:
  "checkCopyArgsAndInit f = None \<longleftrightarrow>
     tgtEndpoint f \<noteq> [] \<and> tgtAccessKey f \<noteq> [] \<and> tgtSecretKey f \<noteq> [] \<and> tgtBucket f \<noteq> [] \<and>
     srcEndpoint f \<noteq> [] \<and> srcAccessKey f \<noteq> [] \<and> srcSecretKey f \<noteq> [] \<and> srcBucket f \<noteq> [] \<and>
     dirPath f \<noteq> []"
  by (simp add: checkCopyArgsAndInit_def)

subsection \<open>What the loop logs and enqueues\<close>

lemma loopBody_summary:
  assumes "loopBody ln st = Inr st' \<or> loopBody ln st = Inl (p, st')"
  shows "filter summary (logs st') = filter summary (logs st)"
  using assms
  unfolding loopBody_def Let_def logDMsg_def queueUploadTask_def
  by (auto split: sum.splits if_splits)

lemma scanLoop_summary:
  assumes "scanLoop sk lns st = Inr st' \<or> scanLoop sk lns st = Inl (p, st')"
  shows "filter summary (logs st') = filter summary (logs st)"
  using assms
proof (induction lns arbitrary: sk st)
  case Nil
  then show ?case by simp
next
  case (Cons ln rest)
  show ?case
  proof (cases "sk > 0")
    case True
    with Cons.prems have "scanLoop (sk - 1) rest st = Inr st' \<or> scanLoop (sk - 1) rest st = Inl (p, st')"
      by simp
    from Cons.IH [OF this] show ?thesis .
  next
    case False
    show ?thesis
    proof (cases "loopBody ln st")
      case (Inl e)
      with False Cons.prems have "loopBody ln st = Inl (p, st')" by simp
      then show ?thesis using loopBody_summary by blast
    next
      case (Inr st1)
      with False Cons.prems have "scanLoop sk rest st1 = Inr st' \<or> scanLoop sk rest st1 = Inl (p, st')"
        by simp
      from Cons.IH [OF this] loopBody_summary [of ln st st1 p] Inr show ?thesis by simp
    qed
  qed
qed



subsection \<open>One line of the manifest\<close>

text \<open>
  C10. A line with more than four comma-separated fields that the loop does not skip is
  never logged as malformed: the only log line is the one that announces the record.
  The record is enqueued with the first three fields trimmed, and its delete-marker flag
  compares the trimmed remainder of the line (the fields from the fourth on, joined by
  commas again) with \<^verbatim>\<open>true\<close>.
\<close>

theorem more_than_four_fields_enqueued:
  assumes "4 < length (Split ln CHR '','')"
  shows "loopBody ln st =
    Inr (st\<lparr>copyState := (copyState st)
              \<lparr>pending := pending (copyState st) @
                 [\<lparr>bucket = TrimSpace (Split ln CHR '','' ! 0),
                   object = TrimSpace (Split ln CHR '','' ! 1),
                   versionID = TrimSpace (Split ln CHR '','' ! 2),
                   deleteMarker =
                     (TrimSpace (Join (drop 3 (Split ln CHR '','')) CHR '','') = ''true'')\<rparr>]\<rparr>,
            logs := logs st @ [LogDMsg (''adding '' @ ln @ '' to copy queue'') None]\<rparr>)"
proof -
  from assms have "4 \<le> length (Split ln CHR '','')" by simp
  from loopBody_four [OF this, of st] show ?thesis
    by (simp add: logDMsg_def queueUploadTask_def)
qed

theorem more_than_four_fields_enqueued_witness:
  "4 < length
     (Split ([CHR 0xC2, CHR 0xA0] @ ''b1'' @ [CHR 0x09] @ '', k1'' @ [CHR 0xE2, CHR 0x80, CHR 0x83] @
        '',v1 , true,x '') CHR '','') \<and>
   loopBody
     ([CHR 0xC2, CHR 0xA0] @ ''b1'' @ [CHR 0x09] @ '', k1'' @ [CHR 0xE2, CHR 0x80, CHR 0x83] @
        '',v1 , true,x '')
     \<lparr>copyState = init newcopyState, dryRun = False, logs = []\<rparr> =
     Inr \<lparr>copyState = init newcopyState
            \<lparr>pending := [\<lparr>bucket = ''b1'', object = ''k1'', versionID = ''v1'',
                          deleteMarker = False\<rparr>]\<rparr>,
          dryRun = False,
          logs = [LogDMsg
                    (''adding '' @
                     ([CHR 0xC2, CHR 0xA0] @ ''b1'' @ [CHR 0x09] @ '', k1'' @ [CHR 0xE2, CHR 0x80, CHR 0x83] @
        '',v1 , true,x '') @
                     '' to copy queue'') None]\<rparr>"
proof -
  let ?ln = "([CHR 0xC2, CHR 0xA0] @ ''b1'' @ [CHR 0x09] @ '', k1'' @ [CHR 0xE2, CHR 0x80, CHR 0x83] @
        '',v1 , true,x '')"
  have s: "Split ?ln CHR '','' =
             [[CHR 0xC2, CHR 0xA0] @ ''b1'' @ [CHR 0x09],
              '' k1'' @ [CHR 0xE2, CHR 0x80, CHR 0x83], ''v1 '', '' true'', ''x '']"
    by (simp add: Split_genSplit)
  have h: "4 < length (Split ?ln CHR '','')"
    using s by simp
  have t: "TrimSpace ([CHR 0xC2, CHR 0xA0] @ ''b1'' @ [CHR 0x09]) = ''b1''"
    "TrimSpace ('' k1'' @ [CHR 0xE2, CHR 0x80, CHR 0x83]) = ''k1''"
    "TrimSpace ''v1 '' = ''v1''" "TrimSpace '' true,x '' = ''true,x''"
    by (simp_all add: trim_defs)
  have j: "Join (drop 3 (Split ?ln CHR '','')) CHR '','' = '' true,x ''"
    using s by simp
  have n: "Split ?ln CHR '','' ! 0 = [CHR 0xC2, CHR 0xA0] @ ''b1'' @ [CHR 0x09]"
    "Split ?ln CHR '','' ! 1 = '' k1'' @ [CHR 0xE2, CHR 0x80, CHR 0x83]"
    "Split ?ln CHR '','' ! 2 = ''v1 ''"
    using s by simp_all
  from more_than_four_fields_enqueued
    [OF h, of "\<lparr>copyState = init newcopyState, dryRun = False, logs = []\<rparr>"]
  have "loopBody ?ln \<lparr>copyState = init newcopyState, dryRun = False, logs = []\<rparr> =
     Inr \<lparr>copyState = init newcopyState
            \<lparr>pending := [\<lparr>bucket = ''b1'', object = ''k1'', versionID = ''v1'',
                          deleteMarker = False\<rparr>]\<rparr>,
          dryRun = False,
          logs = [LogDMsg (''adding '' @ ?ln @ '' to copy queue'') None]\<rparr>"
    unfolding j n t by (simp add: newcopyState_def init_def)
  with h show ?thesis by simp
qed

section \<open>The run as a whole\<close>

lemmas run_defs =
  copyAction_def demoWorld_def demoFlags_def checkCopyArgsAndInit_def initMinioClient_def
  loopBody_def SplitN_4 index_def trim_defs queueUploadTask_def
  logDMsg_def logMsg_def finish_def worker_def copyObject_def getCount_def getFailCount_def
  newcopyState_def init_def started_def

lemma not_started:
  assumes "\<not> started w"
  shows "final (copyAction w) = None \<and> outcome (copyAction w) \<noteq> Return None"
proof (cases "checkCopyArgsAndInit (cli w)")
  case (Some msg)
  from copyAction_no_flags [OF this] show ?thesis by simp
next
  case None
  show ?thesis
  proof (cases "initMinioClient w (srcAccessKey (cli w)) (srcSecretKey (cli w))
                  (srcBucket (cli w)) (srcEndpoint (cli w))")
    case (Inl e)
    from copyAction_no_src [OF None this] show ?thesis by simp
  next
    case (Inr c)
    with assms None obtain e where
      "initMinioClient w (tgtAccessKey (cli w)) (tgtSecretKey (cli w)) (tgtBucket (cli w))
         (tgtEndpoint (cli w)) = Inl e"
      by (auto simp: started_def isl_def)
    from copyAction_no_tgt [OF None Inr this] show ?thesis by simp
  qed
qed

lemma copyAction_done:
  assumes "started w"
    and "os_Open w (dirPath (cli w)) (objListFile w) = Some (lns, None)"
    and "scanLoop (skip (cli w)) lns
           \<lparr>copyState = init newcopyState, dryRun = fake (cli w), logs = []\<rparr> = Inr st"
  shows "copyAction w =
    \<lparr>outcome = Return None,
     final = Some
       (if fake (cli w)
        then logMsg ''copy dry run complete''
               (st\<lparr>copyState := finish True (gateway w) (copyState st)\<rparr>)
        else st\<lparr>copyState := finish False (gateway w) (copyState st),
                logs := logs st @
                  [LogCopied
                     (sint (getCount (finish False (gateway w) (copyState st)) -
                            getFailCount (finish False (gateway w) (copyState st))))
                     (sint (getCount (finish False (gateway w) (copyState st))))
                     (elapsed w)]\<rparr>)\<rparr>"
proof -
  from scanLoop_keeps [OF disjI1, OF assms(3)]
  have dry: "dryRun st = fake (cli w)" by simp
  show ?thesis
    by (simp add: copyAction_started [OF assms(1)] assms(2,3) dry Let_def)
qed

lemma copyAction_Return_None:
  assumes "outcome (copyAction w) = Return None"
  obtains lns st where "started w"
    and "os_Open w (dirPath (cli w)) (objListFile w) = Some (lns, None)"
    and "scanLoop (skip (cli w)) lns
           \<lparr>copyState = init newcopyState, dryRun = fake (cli w), logs = []\<rparr> = Inr st"
proof -
  have st: "started w" using assms not_started [of w] by auto
  from assms show ?thesis
    using that st
    by (auto simp: copyAction_started [OF st] Let_def
        split: option.splits sum.splits prod.splits if_splits)
qed

lemma started_update [simp]:
  "started (w\<lparr>cli := (cli w)\<lparr>fake := b\<rparr>\<rparr>) = started w"
  "started (w\<lparr>gateway := g\<rparr>) = started w"
  by (simp_all add: started_def)

lemma not_started_outcome:
  assumes "\<not> started w"
  shows "copyAction (w\<lparr>cli := (cli w)\<lparr>fake := b\<rparr>, gateway := g\<rparr>) = copyAction w"
proof (cases "checkCopyArgsAndInit (cli w)")
  case (Some msg)
  then show ?thesis by (simp add: copyAction_def)
next
  case None
  show ?thesis
  proof (cases "initMinioClient w (srcAccessKey (cli w)) (srcSecretKey (cli w))
                  (srcBucket (cli w)) (srcEndpoint (cli w))")
    case (Inl e)
    with None show ?thesis by (simp add: copyAction_def)
  next
    case (Inr c)
    with assms None obtain e where
      "initMinioClient w (tgtAccessKey (cli w)) (tgtSecretKey (cli w)) (tgtBucket (cli w))
         (tgtEndpoint (cli w)) = Inl e"
      by (auto simp: started_def isl_def)
    with None Inr show ?thesis by (simp add: copyAction_def)
  qed
qed

text \<open>
  Whatever way \<^verbatim>\<open>copyAction\<close> ends after the core has started, the session it leaves
  is one that the producer and the workers can reach step by step.
\<close>

lemma loopBody_exec:
  assumes "exec dry as (copyState st)"
    and "loopBody ln st = Inr st' \<or> loopBody ln st = Inl (p, st')"
  shows "\<exists>as'. exec dry (as @ as') (copyState st')"
proof -
  from assms(2) consider "copyState st' = copyState st"
    | obj where "copyState st' = queueUploadTask obj (copyState st)"
    unfolding loopBody_def Let_def logDMsg_def
    by (auto split: sum.splits if_splits)
  then show ?thesis
  proof cases
    case 1
    with assms(1) have "exec dry (as @ []) (copyState st')" by simp
    then show ?thesis by blast
  next
    case 2
    have "step dry (copyState st) (Enqueue obj) (queueUploadTask obj (copyState st))"
      by (rule step.enqueue)
    with assms(1) have "exec dry (as @ [Enqueue obj]) (copyState st')"
      unfolding 2 by (rule exec.after)
    then show ?thesis by blast
  qed
qed

lemma scanLoop_exec:
  assumes "exec dry as (copyState st)"
    and "scanLoop sk lns st = Inr st' \<or> scanLoop sk lns st = Inl (p, st')"
  shows "\<exists>as'. exec dry (as @ as') (copyState st')"
  using assms
proof (induction lns arbitrary: sk st as)
  case Nil
  then have "exec dry (as @ []) (copyState st')" by simp
  then show ?case by blast
next
  case (Cons ln rest)
  show ?case
  proof (cases "sk > 0")
    case True
    with Cons.prems(2)
    have "scanLoop (sk - 1) rest st = Inr st' \<or> scanLoop (sk - 1) rest st = Inl (p, st')"
      by simp
    from Cons.IH [OF Cons.prems(1) this] show ?thesis .
  next
    case False
    show ?thesis
    proof (cases "loopBody ln st")
      case (Inl e)
      with False Cons.prems(2) have "loopBody ln st = Inl (p, st')" by simp
      with loopBody_exec [OF Cons.prems(1)] show ?thesis by blast
    next
      case (Inr st1)
      from loopBody_exec [OF Cons.prems(1), of ln st1 p] Inr obtain as1 where
        e1: "exec dry (as @ as1) (copyState st1)" by blast
      from Inr False Cons.prems(2)
      have "scanLoop sk rest st1 = Inr st' \<or> scanLoop sk rest st1 = Inl (p, st')" by simp
      from Cons.IH [OF e1 this] obtain as2 where "exec dry ((as @ as1) @ as2) (copyState st')" ..
      then have "exec dry (as @ (as1 @ as2)) (copyState st')" by simp
      then show ?thesis by blast
    qed
  qed
qed

lemma copyAction_exec:
  assumes "final (copyAction w) = Some st"
  shows "\<exists>as. exec (fake (cli w)) as (copyState st)"
proof -
  let ?dry = "fake (cli w)"
  let ?st1 = "\<lparr>copyState = init newcopyState, dryRun = ?dry, logs = []\<rparr>"
  have e0: "exec ?dry [] (copyState ?st1)" by (simp add: exec.start)
  have st: "started w" using assms not_started [of w] by auto
  show ?thesis
  proof (cases "os_Open w (dirPath (cli w)) (objListFile w)")
    case None
    with assms e0 show ?thesis
      by (auto simp: copyAction_started [OF st])
  next
    case (Some m)
    obtain lns e where m: "m = (lns, e)" by (cases m)
    show ?thesis
    proof (cases "scanLoop (skip (cli w)) lns ?st1")
      case (Inl x)
      obtain p s where x: "x = (p, s)" by (cases x)
      from scanLoop_exec [OF e0 disjI2, of _ _ p s] Inl x obtain as where
        "exec ?dry as (copyState s)" by auto
      with assms Some m Inl x show ?thesis
        by (auto simp: copyAction_started [OF st])
    next
      case (Inr s)
      from scanLoop_exec [OF e0 disjI1, OF Inr] obtain as where
        es: "exec ?dry as (copyState s)" by auto
      from scanLoop_keeps [OF disjI1, OF Inr] have dry: "dryRun s = ?dry" by simp
      show ?thesis
      proof (cases e)
        case (Some err)
        with assms \<open>os_Open w (dirPath (cli w)) (objListFile w) = Some m\<close> m Inr es
        show ?thesis
          by (auto simp: copyAction_started [OF st] logDMsg_def)
      next
        case None
        from exec_finish [OF es, of "gateway w"] obtain as' where
          "exec ?dry (as @ as') (finish ?dry (gateway w) (copyState s))" ..
        with assms \<open>os_Open w (dirPath (cli w)) (objListFile w) = Some m\<close> m Inr None dry
        show ?thesis
          by (auto simp: copyAction_started [OF st] logMsg_def Let_def split: if_splits)
      qed
    qed
  qed
qed

text \<open>
  C1 (the code at the claim's own input). A line with exactly three fields is not turned
  into a record with \<open>deleteMarker = False\<close>: the length check passes it without a
  log line, and the read of \<^verbatim>\<open>slc[3]\<close> panics with index 3 out of range for length 3
  before anything is enqueued. A run over a manifest that starts with such a line ends
  with this panic.
\<close>

theorem three_field_line_panics:
  "loopBody ''b1,k1,v1'' st = Inl (IndexOutOfRange 3 3, st) \<and>
   outcome (copyAction (demoWorld [''b1,k1,v1'', ''b1,k2,v2,true''])) =
     Panicked (IndexOutOfRange 3 3)"
  by (simp add: run_defs)

text \<open>
  C2 (the code at the claim's own inputs). The one-field line of the specification is
  logged as malformed and then, since the loop body does not go on to the next line, the
  read of \<^verbatim>\<open>slc[1]\<close> panics, which ends the run. A line with five fields is not
  logged as malformed; it is enqueued and counted as processed.
\<close>

theorem malformed_line_not_skipped:
  "loopBody ''bucketOnly'' st =
     Inl (IndexOutOfRange 1 1, logDMsg ''error processing line :bucketOnly '' None st) \<and>
   outcome (copyAction (demoWorld [''bucketOnly'', ''b1,k2,v2,true''])) =
     Panicked (IndexOutOfRange 1 1) \<and>
   loopBody ''a,b,c,d,e'' st =
     Inr (logDMsg ''adding a,b,c,d,e to copy queue'' None
           (st\<lparr>copyState :=
                queueUploadTask
                  \<lparr>bucket = ''a'', object = ''b'', versionID = ''c'', deleteMarker = False\<rparr>
                  (copyState st)\<rparr>)) \<and>
   map_option (\<lambda>st. (count (copyState st), logs st)) (final (copyAction (demoWorld [''a,b,c,d,e'']))) =
     Some (1, [LogDMsg ''adding a,b,c,d,e to copy queue'' None, LogCopied 1 1 7])"
proof -
  have "loopBody ''bucketOnly'' st =
     Inl (IndexOutOfRange 1 1, logDMsg ''error processing line :bucketOnly '' None st)"
    by (simp add: loopBody_def SplitN_4 index_def)
  moreover have "loopBody ''a,b,c,d,e'' st =
     Inr (logDMsg ''adding a,b,c,d,e to copy queue'' None
           (st\<lparr>copyState :=
                queueUploadTask
                  \<lparr>bucket = ''a'', object = ''b'', versionID = ''c'', deleteMarker = False\<rparr>
                  (copyState st)\<rparr>))"
    by (simp add: loopBody_def SplitN_4 index_def trim_defs)
  moreover have "outcome (copyAction (demoWorld [''bucketOnly'', ''b1,k2,v2,true''])) =
     Panicked (IndexOutOfRange 1 1)"
    by (simp add: run_defs)
  moreover have
    "map_option (\<lambda>st. (count (copyState st), logs st)) (final (copyAction (demoWorld [''a,b,c,d,e'']))) =
     Some (1, [LogDMsg ''adding a,b,c,d,e to copy queue'' None, LogCopied 1 1 7])"
    by (simp add: run_defs)
  ultimately show ?thesis by simp
qed

text \<open>
  C3 (as amended). The skip offset counts lines of the manifest as the scanner delivers
  them, whatever they contain: a run with offset \<open>S\<close> is the run with offset 0 over the
  manifest without its first \<open>S\<close> lines (without all of them when it has fewer, and
  with all of them when \<open>S\<close> is not positive). The skipped lines are neither parsed nor
  logged, counted or enqueued.
\<close>

theorem skip_ignores_leading_lines:
  assumes "os_Open w (dirPath (cli w)) (objListFile w) = Some (lns, e)"
  shows "copyAction w =
         copyAction (w\<lparr>cli := (cli w)\<lparr>skip := 0\<rparr>,
                       os_Open := \<lambda>d f. Some (drop (nat (skip (cli w))) lns, e)\<rparr>)"
  using assms
  by (simp add: copyAction_def Let_def scanLoop_drop [of "skip (cli w)"]
      split: option.split sum.split)

theorem skip_ignores_leading_lines_witness:
  "os_Open (demoWorld [''bad-line'', ''b1,k1,v1,false'']\<lparr>cli := demoFlags\<lparr>skip := 1\<rparr>\<rparr>)
     ''/tmp/data'' ''object_listing.txt'' = Some ([''bad-line'', ''b1,k1,v1,false''], None) \<and>
   copyAction (demoWorld [''bad-line'', ''b1,k1,v1,false'']\<lparr>cli := demoFlags\<lparr>skip := 1\<rparr>\<rparr>) =
   copyAction (demoWorld [''b1,k1,v1,false''])"
proof -
  let ?w = "demoWorld [''bad-line'', ''b1,k1,v1,false'']\<lparr>cli := demoFlags\<lparr>skip := 1\<rparr>\<rparr>"
  have h: "os_Open ?w (dirPath (cli ?w)) (objListFile ?w) =
             Some ([''bad-line'', ''b1,k1,v1,false''], None)"
    by (simp add: demoWorld_def)
  have w0: "?w\<lparr>cli := (cli ?w)\<lparr>skip := 0\<rparr>,
               os_Open := \<lambda>d f. Some (drop (nat (skip (cli ?w))) [''bad-line'', ''b1,k1,v1,false''], None)\<rparr>
            = demoWorld [''b1,k1,v1,false'']"
    by (simp add: demoWorld_def demoFlags_def)
  from skip_ignores_leading_lines [OF h] h show ?thesis
    by (simp only: w0) (simp add: demoWorld_def demoFlags_def)
qed

text \<open>
  C3 (the claim as stated fails). With offset 1 and a manifest whose first line is
  malformed, the offset is used up by the malformed line, and the first well-formed
  line is enqueued and counted.
\<close>

theorem skip_counts_malformed_lines:
  "\<not> wellFormed ''bad-line'' \<and> wellFormed ''b1,k1,v1,false'' \<and>
   copyAction (demoWorld [''bad-line'', ''b1,k1,v1,false'']\<lparr>cli := demoFlags\<lparr>skip := 1\<rparr>\<rparr>) =
     \<lparr>outcome = Return None,
      final = Some
        \<lparr>copyState =
           \<lparr>running = True, pending = [], count = 1, failCount = 0,
            gwCalls = [GetObject ''b1'' ''k1'' ''v1'', PutObject ''b1'' ''k1'' ''v1''],
            workerLog = [Succeeded \<lparr>bucket = ''b1'', object = ''k1'', versionID = ''v1'',
                                    deleteMarker = False\<rparr>]\<rparr>,
         dryRun = False,
         logs = [LogDMsg ''adding b1,k1,v1,false to copy queue'' None, LogCopied 1 1 7]\<rparr>\<rparr>"
  by (simp add: run_defs wellFormed_def Split_genSplit Let_def)

text \<open>
  C8 (as amended). An empty required flag ends the process before the core is
  constructed. A manifest file that cannot be opened ends the process too, at once and
  before any line is read, but after the core has been constructed and its workers
  started. A manifest file that opens but cannot be read to its end is not such a fatal
  configuration error: once the file is open the process never exits through
  \<^verbatim>\<open>Fatalln\<close>, whatever the scanner reports afterwards.
\<close>

theorem fatal_configuration_errors:
  "(tgtEndpoint (cli w) = [] \<or> tgtAccessKey (cli w) = [] \<or> tgtSecretKey (cli w) = [] \<or>
    tgtBucket (cli w) = [] \<or> srcEndpoint (cli w) = [] \<or> srcAccessKey (cli w) = [] \<or>
    srcSecretKey (cli w) = [] \<or> srcBucket (cli w) = [] \<or> dirPath (cli w) = [] \<longrightarrow>
    (\<exists>msg. copyAction w = \<lparr>outcome = Fatal msg, final = None\<rparr>)) \<and>
   (started w \<and> os_Open w (dirPath (cli w)) (objListFile w) = None \<longrightarrow>
    copyAction w =
      \<lparr>outcome = Fatal ''--input-file needs to be specified'',
       final = Some \<lparr>copyState = init newcopyState, dryRun = fake (cli w), logs = []\<rparr>\<rparr>) \<and>
   (\<forall>lns e. started w \<and> os_Open w (dirPath (cli w)) (objListFile w) = Some (lns, e) \<longrightarrow>
      (\<forall>msg. outcome (copyAction w) \<noteq> Fatal msg))"
proof (intro conjI impI allI)
  assume "tgtEndpoint (cli w) = [] \<or> tgtAccessKey (cli w) = [] \<or> tgtSecretKey (cli w) = [] \<or>
    tgtBucket (cli w) = [] \<or> srcEndpoint (cli w) = [] \<or> srcAccessKey (cli w) = [] \<or>
    srcSecretKey (cli w) = [] \<or> srcBucket (cli w) = [] \<or> dirPath (cli w) = []"
  then have "checkCopyArgsAndInit (cli w) \<noteq> None"
    by (auto simp: checkCopyArgsAndInit_None)
  then obtain msg where "checkCopyArgsAndInit (cli w) = Some msg" by auto
  from copyAction_no_flags [OF this]
  show "\<exists>msg. copyAction w = \<lparr>outcome = Fatal msg, final = None\<rparr>" ..
next
  assume "started w \<and> os_Open w (dirPath (cli w)) (objListFile w) = None"
  then show "copyAction w =
      \<lparr>outcome = Fatal ''--input-file needs to be specified'',
       final = Some \<lparr>copyState = init newcopyState, dryRun = fake (cli w), logs = []\<rparr>\<rparr>"
    by (simp add: copyAction_started)
next
  fix lns e msg
  assume "started w \<and> os_Open w (dirPath (cli w)) (objListFile w) = Some (lns, e)"
  then show "outcome (copyAction w) \<noteq> Fatal msg"
    by (simp add: copyAction_started Let_def split: sum.split prod.split option.split)
qed

theorem fatal_configuration_errors_witness:
  "srcBucket (cli (demoWorld []\<lparr>cli := demoFlags\<lparr>srcBucket := []\<rparr>\<rparr>)) = [] \<and>
   copyAction (demoWorld []\<lparr>cli := demoFlags\<lparr>srcBucket := []\<rparr>\<rparr>) =
     \<lparr>outcome = Fatal ''--src-bucket not specified.'', final = None\<rparr> \<and>
   started (demoWorld []\<lparr>os_Open := \<lambda>d f. None\<rparr>) \<and>
   os_Open (demoWorld []\<lparr>os_Open := \<lambda>d f. None\<rparr>) ''/tmp/data'' ''object_listing.txt'' = None \<and>
   copyAction (demoWorld []\<lparr>os_Open := \<lambda>d f. None\<rparr>) =
     \<lparr>outcome = Fatal ''--input-file needs to be specified'',
      final = Some \<lparr>copyState = init newcopyState, dryRun = False, logs = []\<rparr>\<rparr> \<and>
   started (demoWorld []\<lparr>os_Open := \<lambda>d f. Some ([], Some ''read error'')\<rparr>) \<and>
   os_Open (demoWorld []\<lparr>os_Open := \<lambda>d f. Some ([], Some ''read error'')\<rparr>)
     ''/tmp/data'' ''object_listing.txt'' = Some ([], Some ''read error'') \<and>
   outcome (copyAction (demoWorld []\<lparr>os_Open := \<lambda>d f. Some ([], Some ''read error'')\<rparr>)) =
     Return (Some (ScanError ''read error''))"
proof -
  have a: "outcome (copyAction (demoWorld []\<lparr>os_Open := \<lambda>d f. Some ([], Some ''read error'')\<rparr>)) =
     Return (Some (ScanError ''read error''))"
    by (simp add: run_defs)
  from fatal_configuration_errors [of "demoWorld []\<lparr>cli := demoFlags\<lparr>srcBucket := []\<rparr>\<rparr>"]
    fatal_configuration_errors [of "demoWorld []\<lparr>os_Open := \<lambda>d f. None\<rparr>"]
    fatal_configuration_errors [of "(demoWorld []\<lparr>os_Open := \<lambda>d f. Some ([], Some ''read error'')\<rparr>)"]
    a
  show ?thesis
    by (simp add: run_defs)
qed

text \<open>
  C8 (the claim as stated fails). With every flag set and both clients built, a manifest
  file that cannot be opened ends the process when the core has already been constructed
  and its workers started.
\<close>

theorem unreadable_manifest_after_core:
  "checkCopyArgsAndInit (cli (demoWorld []\<lparr>os_Open := \<lambda>d f. None\<rparr>)) = None \<and>
   outcome (copyAction (demoWorld []\<lparr>os_Open := \<lambda>d f. None\<rparr>)) =
     Fatal ''--input-file needs to be specified'' \<and>
   final (copyAction (demoWorld []\<lparr>os_Open := \<lambda>d f. None\<rparr>)) =
     Some \<lparr>copyState =
             \<lparr>running = True, pending = [], count = 0, failCount = 0, gwCalls = [],
              workerLog = []\<rparr>,
           dryRun = False, logs = []\<rparr>"
  by (simp add: run_defs)

text \<open>
  C9. When the source client or the target client cannot be built, the run ends before
  the core is constructed, so that no record is enqueued or processed, and it does not
  end normally: with every flag set, \<^verbatim>\<open>copyAction\<close> returns the error of the client
  that failed.
\<close>

theorem client_failure_aborts:
  assumes "isl (initMinioClient w (srcAccessKey (cli w)) (srcSecretKey (cli w)) (srcBucket (cli w))
               (srcEndpoint (cli w))) \<or>
           isl (initMinioClient w (tgtAccessKey (cli w)) (tgtSecretKey (cli w)) (tgtBucket (cli w))
               (tgtEndpoint (cli w)))"
  shows "final (copyAction w) = None \<and> outcome (copyAction w) \<noteq> Return None \<and>
         (checkCopyArgsAndInit (cli w) = None \<longrightarrow>
            (\<exists>e. outcome (copyAction w) = Return (Some (CouldNotInitSrc e)) \<or>
                 outcome (copyAction w) = Return (Some (CouldNotInitTgt e))))"
proof (cases "checkCopyArgsAndInit (cli w)")
  case (Some msg)
  from copyAction_no_flags [OF this] Some show ?thesis by simp
next
  case None
  show ?thesis
  proof (cases "initMinioClient w (srcAccessKey (cli w)) (srcSecretKey (cli w))
                  (srcBucket (cli w)) (srcEndpoint (cli w))")
    case (Inl e)
    from copyAction_no_src [OF None this] show ?thesis by simp
  next
    case (Inr c)
    with assms obtain e where
      "initMinioClient w (tgtAccessKey (cli w)) (tgtSecretKey (cli w)) (tgtBucket (cli w))
         (tgtEndpoint (cli w)) = Inl e"
      by (auto simp: isl_def)
    from copyAction_no_tgt [OF None Inr this] show ?thesis by simp
  qed
qed

theorem client_failure_aborts_witness:
  "(isl (initMinioClient (demoWorld [''b1,k1,v1,true'']\<lparr>url_Parse := \<lambda>u. None\<rparr>)
           ''minio1'' ''minio123'' ''srcbucket'' ''https://minio1'') \<or>
    isl (initMinioClient (demoWorld [''b1,k1,v1,true'']\<lparr>url_Parse := \<lambda>u. None\<rparr>)
           ''minio'' ''minio123'' ''dstbucket'' ''https://minio2'')) \<and>
   checkCopyArgsAndInit (cli (demoWorld [''b1,k1,v1,true'']\<lparr>url_Parse := \<lambda>u. None\<rparr>)) = None \<and>
   copyAction (demoWorld [''b1,k1,v1,true'']\<lparr>url_Parse := \<lambda>u. None\<rparr>) =
     \<lparr>outcome = Return (Some (CouldNotInitSrc (UrlParseError ''https://minio1''))),
      final = None\<rparr>"
  using client_failure_aborts [of "demoWorld [''b1,k1,v1,true'']\<lparr>url_Parse := \<lambda>u. None\<rparr>"]
  by (simp add: run_defs)




text \<open>
  C5. When \<^verbatim>\<open>copyAction\<close> returns without error, the drain has returned (nothing is
  left in the queue) and the log ends with its only summary line. In a live run that
  line carries \<^verbatim>\<open>getCount() - getFailCount()\<close>, \<^verbatim>\<open>getCount()\<close> and the elapsed
  seconds; the first number is the processed count minus the failed count (the failed
  count never exceeds the processed count, and below \<open>2^63\<close> the 64-bit subtraction
  is the subtraction of the integers). In a dry run the line is the plain notice
  \<^verbatim>\<open>copy dry run complete\<close>.
\<close>

theorem final_line:
  assumes "outcome (copyAction w) = Return None"
  shows "\<exists>st. final (copyAction w) = Some st \<and> pending (copyState st) = [] \<and>
           filter summary (logs st) = [last (logs st)] \<and>
           last (logs st) =
             (if fake (cli w) then LogMsg ''copy dry run complete''
              else LogCopied (sint (getCount (copyState st) - getFailCount (copyState st)))
                     (sint (getCount (copyState st))) (elapsed w)) \<and>
           failCount (copyState st) \<le> count (copyState st) \<and>
           (count (copyState st) < 2 ^ 63 \<longrightarrow>
              sint (getCount (copyState st) - getFailCount (copyState st)) =
                int (count (copyState st)) - int (failCount (copyState st)) \<and>
              sint (getCount (copyState st)) = int (count (copyState st)))"
proof -
  from assms obtain lns st0 where
    st: "started w" and
    opn: "os_Open w (dirPath (cli w)) (objListFile w) = Some (lns, None)" and
    loop: "scanLoop (skip (cli w)) lns
             \<lparr>copyState = init newcopyState, dryRun = fake (cli w), logs = []\<rparr> = Inr st0"
    by (rule copyAction_Return_None)
  let ?s = "finish (fake (cli w)) (gateway w) (copyState st0)"
  from scanLoop_keeps [OF disjI1, OF loop]
  have zero: "count (copyState st0) = 0" "failCount (copyState st0) = 0"
    by (simp_all add: newcopyState_def init_def)
  from scanLoop_summary [OF disjI1, OF loop]
  have nosum: "filter summary (logs st0) = []" by simp
  have le: "failCount ?s \<le> count ?s"
    using finish_failCount [of "copyState st0" "fake (cli w)" "gateway w"]
    by (simp add: finish_count zero)
  have arith: "count ?s < 2 ^ 63 \<longrightarrow>
      sint (getCount ?s - getFailCount ?s) = int (count ?s) - int (failCount ?s) \<and>
      sint (getCount ?s) = int (count ?s)"
    using le by (simp add: getCount_def getFailCount_def sint_diff_64 sint_of_nat_64)
  show ?thesis
  proof (cases "fake (cli w)")
    case True
    with copyAction_done [OF st opn loop] nosum le arith show ?thesis
      by (simp add: logMsg_def finish_pending)
  next
    case False
    with copyAction_done [OF st opn loop] nosum le arith show ?thesis
      by (simp add: finish_pending)
  qed
qed

theorem final_line_witness:
  "outcome (copyAction (demoWorld [''b1,k1,v1,'', ''b1,k2,v2,true'']
      \<lparr>gateway := \<lambda>c. case c of RemoveObject b k v \<Rightarrow> False | _ \<Rightarrow> True\<rparr>)) = Return None \<and>
   map_option logs (final (copyAction (demoWorld [''b1,k1,v1,'', ''b1,k2,v2,true'']
      \<lparr>gateway := \<lambda>c. case c of RemoveObject b k v \<Rightarrow> False | _ \<Rightarrow> True\<rparr>))) =
     Some [LogDMsg ''adding b1,k1,v1, to copy queue'' None,
           LogDMsg ''adding b1,k2,v2,true to copy queue'' None,
           LogCopied 1 2 7] \<and>
   outcome (copyAction (demoWorld [''b1,k1,v1,'', ''b1,k2,v2,true'']
      \<lparr>cli := demoFlags\<lparr>fake := True\<rparr>\<rparr>)) = Return None \<and>
   map_option logs (final (copyAction (demoWorld [''b1,k1,v1,'', ''b1,k2,v2,true'']
      \<lparr>cli := demoFlags\<lparr>fake := True\<rparr>\<rparr>))) =
     Some [LogDMsg ''adding b1,k1,v1, to copy queue'' None,
           LogDMsg ''adding b1,k2,v2,true to copy queue'' None,
           LogMsg ''copy dry run complete'']"
proof -
  have a: "outcome (copyAction (demoWorld [''b1,k1,v1,'', ''b1,k2,v2,true'']
      \<lparr>gateway := \<lambda>c. case c of RemoveObject b k v \<Rightarrow> False | _ \<Rightarrow> True\<rparr>)) = Return None"
    by (simp add: run_defs)
  have b: "outcome (copyAction (demoWorld [''b1,k1,v1,'', ''b1,k2,v2,true'']
      \<lparr>cli := demoFlags\<lparr>fake := True\<rparr>\<rparr>)) = Return None"
    by (simp add: run_defs)
  from final_line [OF a] final_line [OF b] show ?thesis
    by (simp add: run_defs)
qed

text \<open>
  C7. A dry-run pass and a live pass over the same manifest and command line, whatever
  the storage gateways answer in the live pass, end in the same way with the same
  processed count, and the dry-run pass makes no storage call.
\<close>

theorem dry_run_counts_like_live:
  "outcome (copyAction (w\<lparr>cli := (cli w)\<lparr>fake := True\<rparr>\<rparr>)) =
     outcome (copyAction (w\<lparr>cli := (cli w)\<lparr>fake := False\<rparr>, gateway := g\<rparr>)) \<and>
   map_option (\<lambda>st. count (copyState st)) (final (copyAction (w\<lparr>cli := (cli w)\<lparr>fake := True\<rparr>\<rparr>))) =
     map_option (\<lambda>st. count (copyState st))
       (final (copyAction (w\<lparr>cli := (cli w)\<lparr>fake := False\<rparr>, gateway := g\<rparr>))) \<and>
   (\<forall>st. final (copyAction (w\<lparr>cli := (cli w)\<lparr>fake := True\<rparr>\<rparr>)) = Some st \<longrightarrow>
         gwCalls (copyState st) = [])"
proof (cases "started w")
  case False
  from not_started_outcome [OF False, where b = True and g = "gateway w"]
    not_started_outcome [OF False, where b = False and g = g] not_started [OF False]
  show ?thesis by simp
next
  case True
  let ?d = "w\<lparr>cli := (cli w)\<lparr>fake := True\<rparr>\<rparr>"
  let ?l = "w\<lparr>cli := (cli w)\<lparr>fake := False\<rparr>, gateway := g\<rparr>"
  let ?st = "\<lparr>copyState = init newcopyState, dryRun = False, logs = []\<rparr>"
  have sd: "started ?d" and sl: "started ?l" using True by simp_all
  have st1: "\<lparr>copyState = init newcopyState, dryRun = True, logs = []\<rparr> = ?st\<lparr>dryRun := True\<rparr>"
    by simp
  show ?thesis
  proof (cases "os_Open w (dirPath (cli w)) (objListFile w)")
    case None
    then show ?thesis
      by (simp add: copyAction_started [OF sd] copyAction_started [OF sl]
          newcopyState_def init_def)
  next
    case (Some m)
    obtain lns e where m: "m = (lns, e)" by (cases m)
    show ?thesis
    proof (cases "scanLoop (skip (cli w)) lns ?st")
      case (Inl x)
      obtain p s where x: "x = (p, s)" by (cases x)
      from scanLoop_keeps [OF disjI2, of _ _ _ p s] Inl x
      have "gwCalls (copyState s) = []" by (simp add: newcopyState_def init_def)
      with Some m Inl x show ?thesis
        by (simp add: copyAction_started [OF sd] copyAction_started [OF sl] st1
            scanLoop_dryRun del: state.simps)
    next
      case (Inr s)
      from scanLoop_keeps [OF disjI1, OF Inr]
      have keep: "gwCalls (copyState s) = []" "dryRun s = False"
        by (simp_all add: newcopyState_def init_def)
      show ?thesis
      proof (cases e)
        case None
        with Some m Inr keep show ?thesis
          by (simp add: copyAction_started [OF sd] copyAction_started [OF sl] st1
              scanLoop_dryRun logMsg_def finish_count finish_dry Let_def del: state.simps)
      next
        case (Some err)
        with \<open>os_Open w (dirPath (cli w)) (objListFile w) = Some m\<close> m Inr keep show ?thesis
          by (simp add: copyAction_started [OF sd] copyAction_started [OF sl] st1
              scanLoop_dryRun logDMsg_def del: state.simps)
      qed
    qed
  qed
qed

theorem dry_run_counts_like_live_witness:
  "final (copyAction (demoWorld [''b1,k1,v1,'', ''b1,k2,v2,true'']\<lparr>cli := demoFlags\<lparr>fake := True\<rparr>\<rparr>)) =
     Some
       \<lparr>copyState =
          \<lparr>running = True, pending = [], count = 2, failCount = 0, gwCalls = [],
           workerLog =
             [WouldCopy \<lparr>bucket = ''b1'', object = ''k1'', versionID = ''v1'',
                         deleteMarker = False\<rparr>,
              WouldDelete \<lparr>bucket = ''b1'', object = ''k2'', versionID = ''v2'',
                           deleteMarker = True\<rparr>]\<rparr>,
        dryRun = True,
        logs = [LogDMsg ''adding b1,k1,v1, to copy queue'' None,
                LogDMsg ''adding b1,k2,v2,true to copy queue'' None,
                LogMsg ''copy dry run complete'']\<rparr> \<and>
   map_option (\<lambda>st. (count (copyState st), failCount (copyState st), gwCalls (copyState st)))
     (final (copyAction (demoWorld [''b1,k1,v1,'', ''b1,k2,v2,true'']
        \<lparr>cli := demoFlags\<lparr>fake := False\<rparr>, gateway := \<lambda>c. False\<rparr>))) =
     Some (2, 2, [GetObject ''b1'' ''k1'' ''v1'', RemoveObject ''b1'' ''k2'' ''v2''])"
  using dry_run_counts_like_live
    [of "demoWorld [''b1,k1,v1,'', ''b1,k2,v2,true'']" "\<lambda>c. False"]
  by (simp add: run_defs)

end
